theory Spec2Isabelle
  imports
    Complex_Main
    "HOL-Library.Word"
    "HOL-Library.Signed_Division"
    "HOL-Library.Log_Nat"
    "HOL-Library.Multiset"
    "HOL-Library.Char_ord"
    "HOL-Library.List_Lexorder"
    "HOL-Library.Product_Lexorder"
begin

section \<open>Data model (internal/model)\<close>

text \<open>
  Strings are byte strings, as in Go: \<^typ>\<open>string\<close> is a list of 8-bit characters and
  the order on it (\<^theory_text>\<open>List_Lexorder\<close> over \<^theory_text>\<open>Char_ord\<close>) is the bytewise
  lexicographic order of Go's \<^verbatim>\<open><\<close> on strings.

  \<^verbatim>\<open>time.Duration\<close> is an \<^verbatim>\<open>int64\<close> of nanoseconds: a 64-bit word, read signed.
  The counters are Go \<^verbatim>\<open>int\<close>s that are only ever incremented once per slice element
  held in memory, so they cannot wrap and are modelled as \<^typ>\<open>int\<close>.
\<close>

type_synonym Duration = "64 word"

datatype Outcome = OutcomePass | OutcomeFail | OutcomeSkip

datatype Classification =
  ClassificationFlaky | ClassificationStable | ClassificationDeterministicFail

datatype FailureSignature =
  SignatureTimeout | SignatureSelector | SignatureNetwork
  | SignatureDOMDetach | SignatureAssertion | SignatureUnknown

record TestResult =
  TestID :: string
  Outcome :: Outcome
  Duration :: Duration
  FailureMessage :: string

record RunResult =
  RunIndex :: int
  Tests :: "TestResult list"
  Error :: string

record FailureEvidence =
  ev_RunIndex :: int
  Excerpt :: string
  Signature :: FailureSignature

record AggregatedTest =
  at_TestID :: string
  PassCount :: int
  FailCount :: int
  SkipCount :: int
  TotalRuns :: int
  AvgDuration :: Duration
  Classification :: Classification
  FlakeRate :: rat
  WastedTime :: Duration
  at_FailureEvidence :: "FailureEvidence list"

section \<open>Go primitives used by the code\<close>

subsection \<open>float64 arithmetic\<close>

text \<open>
  A finite \<^verbatim>\<open>float64\<close> is modelled by the rational number it denotes; every operation
  is the exact operation followed by rounding to the nearest double, ties to even
  (IEEE 754 binary64, 53 significant bits). The exponent range is not modelled: the
  aggregation only converts 64-bit integers, divides a count by a positive count and
  multiplies three such values, which stays far inside the normal range and never
  produces a NaN or an infinity; the Cypress adapter multiplies the \<^verbatim>\<open>time\<close> attribute
  of a test case, taken to be a finite number of ordinary magnitude, by \<open>10\<^sup>9\<close>.
\<close>

definition round_even :: "rat \<Rightarrow> int" where
  "round_even q =
     (let f = \<lfloor>q\<rfloor>; r = q - of_int f
      in if r < 1 / 2 then f
         else if 1 / 2 < r then f + 1
         else if even f then f else f + 1)"

definition ilog2 :: "rat \<Rightarrow> int" where
  \<comment> \<open>\<open>\<lfloor>log\<^sub>2 x\<rfloor>\<close> for \<open>x > 0\<close>\<close>
  "ilog2 x =
     (let (p, q) = quotient_of x; e = bitlen p - bitlen q
      in if 2 powi e \<le> x then e else e - 1)"

definition round64 :: "rat \<Rightarrow> rat" where
  "round64 x =
     (if x = 0 then 0
      else let ulp = 2 powi (ilog2 \<bar>x\<bar> - 52)
           in of_int (round_even (x / ulp)) * ulp)"

definition float64_of_int :: "int \<Rightarrow> rat" where
  \<comment> \<open>the conversion \<^verbatim>\<open>float64(n)\<close>\<close>
  "float64_of_int n = round64 (of_int n)"

definition fmul :: "rat \<Rightarrow> rat \<Rightarrow> rat" where
  "fmul x y = round64 (x * y)"

definition fdiv :: "rat \<Rightarrow> rat \<Rightarrow> rat" where
  "fdiv x y = round64 (x / y)"

definition Duration_of_float :: "rat \<Rightarrow> Duration" where
  \<comment> \<open>the conversion \<^verbatim>\<open>time.Duration(x)\<close>: the fraction is discarded (truncation towards
      zero). Outside the \<^verbatim>\<open>int64\<close> range Go leaves the result to the implementation;
      the value shown is the one amd64 gives.\<close>
  "Duration_of_float x =
     (let t = (if 0 \<le> x then \<lfloor>x\<rfloor> else \<lceil>x\<rceil>)
      in if - (2 ^ 63) \<le> t \<and> t < 2 ^ 63 then word_of_int t else word_of_int (- (2 ^ 63)))"

definition Duration_div :: "Duration \<Rightarrow> Duration \<Rightarrow> Duration" where
  \<comment> \<open>\<^verbatim>\<open>int64\<close> division: the quotient is truncated towards zero\<close>
  "Duration_div a b = word_of_int (sint a sdiv sint b)"

subsection \<open>sort.Slice\<close>

text \<open>
  \<^verbatim>\<open>sort.Slice(xs, less)\<close> rearranges \<open>xs\<close> so that it is ordered by \<open>less\<close>; it does not
  promise to keep equal elements in their original order. The model is the insertion
  sort that Go runs on short slices, which does keep them; the theorems about sorted
  output below hold for every rearrangement that is ordered by \<open>less\<close>, not only for
  this one.
\<close>

fun insert_by :: "('a \<Rightarrow> 'a \<Rightarrow> bool) \<Rightarrow> 'a \<Rightarrow> 'a list \<Rightarrow> 'a list" where
  "insert_by lt x [] = [x]"
| "insert_by lt x (y # ys) =
     (if lt x y then x # y # ys else y # insert_by lt x ys)"

definition sort_Slice :: "('a \<Rightarrow> 'a \<Rightarrow> bool) \<Rightarrow> 'a list \<Rightarrow> 'a list" where
  "sort_Slice lt xs = foldl (\<lambda>sorted x. insert_by lt x sorted) [] xs"

subsection \<open>regexp: the fragment used by the signature patterns\<close>

text \<open>
  Every pattern of \<^verbatim>\<open>signaturePatterns\<close> is a sequence of literal characters, one optional
  character (\<^verbatim>\<open>d?\<close>), \<^verbatim>\<open>\s*\<close> and \<^verbatim>\<open>\b\<close>, compiled with the flag \<^verbatim>\<open>(?i)\<close>. In RE2 syntax
  \<^verbatim>\<open>\s\<close> is \<^verbatim>\<open>[\t\n\f\r ]\<close>, \<^verbatim>\<open>\b\<close> is the ASCII word boundary (a word character is one of
  \<^verbatim>\<open>[0-9A-Za-z_]\<close>), and a literal letter under \<^verbatim>\<open>(?i)\<close> matches every character of its
  simple case-folding orbit: its two ASCII cases and, for \<^verbatim>\<open>k\<close> and \<^verbatim>\<open>s\<close>, also the Kelvin
  sign U+212A and the long s U+017F, which are the UTF-8 byte sequences below.
  \<^verbatim>\<open>MatchString\<close> reports whether some substring matches.
\<close>

datatype regex_item = Lit char | OptLit char | SpaceStar | WordBoundary

type_synonym Regexp = "regex_item list"

definition isUpper :: "char \<Rightarrow> bool" where
  "isUpper c = (65 \<le> (of_char c :: nat) \<and> (of_char c :: nat) \<le> 90)"

definition isLower :: "char \<Rightarrow> bool" where
  "isLower c = (97 \<le> (of_char c :: nat) \<and> (of_char c :: nat) \<le> 122)"

definition isDigit :: "char \<Rightarrow> bool" where
  "isDigit c = (48 \<le> (of_char c :: nat) \<and> (of_char c :: nat) \<le> 57)"

definition toLower :: "char \<Rightarrow> char" where
  "toLower c = (if isUpper c then char_of (of_char c + (32 :: nat)) else c)"

definition toUpper :: "char \<Rightarrow> char" where
  "toUpper c = (if isLower c then char_of (of_char c - (32 :: nat)) else c)"

definition isWordChar :: "char \<Rightarrow> bool" where
  "isWordChar c = (isDigit c \<or> isUpper c \<or> isLower c \<or> c = CHR ''_'')"

definition isRegexSpace :: "char \<Rightarrow> bool" where
  "isRegexSpace c = (c \<in> set [CHR 0x09, CHR 0x0A, CHR 0x0C, CHR 0x0D, CHR '' ''])"

definition foldForms :: "char \<Rightarrow> string list" where
  "foldForms c =
     (let l = toLower c
      in if isLower l
         then [[l], [toUpper l]]
              @ (if l = CHR ''k'' then [[CHR 0xE2, CHR 0x84, CHR 0xAA]]
                 else if l = CHR ''s'' then [[CHR 0xC5, CHR 0xBF]]
                 else [])
         else [[c]])"

definition wordBefore :: "char option \<Rightarrow> bool" where
  "wordBefore prev = (case prev of None \<Rightarrow> False | Some c \<Rightarrow> isWordChar c)"

definition wordAfter :: "string \<Rightarrow> bool" where
  "wordAfter s = (case s of [] \<Rightarrow> False | c # _ \<Rightarrow> isWordChar c)"

function matchHere :: "Regexp \<Rightarrow> char option \<Rightarrow> string \<Rightarrow> bool" where
  "matchHere [] prev s = True"
| "matchHere (Lit c # r) prev s =
     list_ex (\<lambda>f. take (length f) s = f \<and> matchHere r (Some (last f)) (drop (length f) s))
       (foldForms c)"
| "matchHere (OptLit c # r) prev s =
     (list_ex (\<lambda>f. take (length f) s = f \<and> matchHere r (Some (last f)) (drop (length f) s))
        (foldForms c)
      \<or> matchHere r prev s)"
| "matchHere (SpaceStar # r) prev s =
     (matchHere r prev s
      \<or> (case s of [] \<Rightarrow> False
          | x # xs \<Rightarrow> isRegexSpace x \<and> matchHere (SpaceStar # r) (Some x) xs))"
| "matchHere (WordBoundary # r) prev s =
     (wordBefore prev \<noteq> wordAfter s \<and> matchHere r prev s)"
  by pat_completeness auto
termination
  by (relation "measure (\<lambda>(r, prev, s). length r + length s)") auto

fun matchFrom :: "Regexp \<Rightarrow> char option \<Rightarrow> string \<Rightarrow> bool" where
  "matchFrom p prev [] = matchHere p prev []"
| "matchFrom p prev (x # xs) = (matchHere p prev (x # xs) \<or> matchFrom p (Some x) xs)"

definition MatchString :: "Regexp \<Rightarrow> string \<Rightarrow> bool" where
  "MatchString p s = matchFrom p None s"

subsection \<open>strings.Fields and strings.Join\<close>

text \<open>
  \<^verbatim>\<open>strings.Fields\<close> splits around runs of white space as defined by \<^verbatim>\<open>unicode.IsSpace\<close>:
  the six ASCII space characters and U+0085, U+00A0, U+1680, U+2000 to U+200A, U+2028,
  U+2029, U+202F, U+205F, U+3000, given here by their UTF-8 encodings.
\<close>

definition asciiSpaces :: "char list" where
  "asciiSpaces = [CHR 0x09, CHR 0x0A, CHR 0x0B, CHR 0x0C, CHR 0x0D, CHR '' '']"

definition spaceLen :: "string \<Rightarrow> nat" where
  \<comment> \<open>the number of bytes of the white-space character at the start of \<open>s\<close>, or 0\<close>
  "spaceLen s =
     (case s of
        [] \<Rightarrow> 0
      | c # cs \<Rightarrow>
          if c \<in> set asciiSpaces then 1
          else if c = CHR 0xC2 then
            (if take 1 cs = [CHR 0x85] \<or> take 1 cs = [CHR 0xA0] then 2 else 0)
          else if c = CHR 0xE1 then
            (if take 2 cs = [CHR 0x9A, CHR 0x80] then 3 else 0)
          else if c = CHR 0xE2 then
            (if take 2 cs \<in> set
                 [[CHR 0x80, CHR 0x80], [CHR 0x80, CHR 0x81], [CHR 0x80, CHR 0x82],
                  [CHR 0x80, CHR 0x83], [CHR 0x80, CHR 0x84], [CHR 0x80, CHR 0x85],
                  [CHR 0x80, CHR 0x86], [CHR 0x80, CHR 0x87], [CHR 0x80, CHR 0x88],
                  [CHR 0x80, CHR 0x89], [CHR 0x80, CHR 0x8A], [CHR 0x80, CHR 0xA8],
                  [CHR 0x80, CHR 0xA9], [CHR 0x80, CHR 0xAF], [CHR 0x81, CHR 0x9F]]
             then 3 else 0)
          else if c = CHR 0xE3 then
            (if take 2 cs = [CHR 0x80, CHR 0x80] then 3 else 0)
          else 0)"

fun FieldsFrom :: "string \<Rightarrow> string \<Rightarrow> string list" where
  "FieldsFrom cur [] = (if cur = [] then [] else [cur])"
| "FieldsFrom cur (c # cs) =
     (case spaceLen (c # cs) of
        0 \<Rightarrow> FieldsFrom (cur @ [c]) cs
      | Suc k \<Rightarrow> (if cur = [] then [] else [cur]) @ FieldsFrom [] (drop k cs))"

definition Fields :: "string \<Rightarrow> string list" where
  "Fields s = FieldsFrom [] s"

fun Join :: "string list \<Rightarrow> string \<Rightarrow> string" where
  "Join [] sep = []"
| "Join [x] sep = x"
| "Join (x # y # ys) sep = x @ sep @ Join (y # ys) sep"

section \<open>Signature detection (internal/classify)\<close>

record signaturePattern =
  signature :: FailureSignature
  patterns :: "Regexp list"

definition lits :: "string \<Rightarrow> Regexp" where
  "lits s = map Lit s"

definition signaturePatterns :: "signaturePattern list" where
  "signaturePatterns =
     [ \<lparr> signature = SignatureTimeout,
         patterns =
           [ lits ''timeout'',
             lits ''time'' @ [OptLit CHR ''d'', SpaceStar] @ lits ''out'',
             lits ''exceeded'' @ [SpaceStar] @ lits ''time'' ] \<rparr>,
       \<lparr> signature = SignatureSelector,
         patterns =
           [ lits ''selector'',
             lits ''element'' @ [SpaceStar] @ lits ''not'' @ [SpaceStar] @ lits ''found'',
             lits ''cy.get'' ] \<rparr>,
       \<lparr> signature = SignatureNetwork,
         patterns =
           [ lits ''network'',
             lits ''ECONNREFUSED'',
             lits ''fetch'' @ [SpaceStar] @ lits ''failed'' ] \<rparr>,
       \<lparr> signature = SignatureDOMDetach,
         patterns =
           [ lits ''detached'',
             lits ''stale'' @ [SpaceStar] @ lits ''element'' ] \<rparr>,
       \<lparr> signature = SignatureAssertion,
         patterns =
           [ [WordBoundary] @ lits ''expect'' @ [WordBoundary],
             [WordBoundary] @ lits ''assert'',
             [WordBoundary] @ lits ''toBe'' @ [WordBoundary],
             [WordBoundary] @ lits ''toEqual'' @ [WordBoundary] ] \<rparr> ]"

fun detectIn :: "signaturePattern list \<Rightarrow> string \<Rightarrow> FailureSignature" where
  \<comment> \<open>the two nested loops of \<^verbatim>\<open>DetectSignature\<close>, returning at the first matching pattern\<close>
  "detectIn [] failureMessage = SignatureUnknown"
| "detectIn (sp # rest) failureMessage =
     (if list_ex (\<lambda>pattern. MatchString pattern failureMessage) (patterns sp)
      then signature sp
      else detectIn rest failureMessage)"

definition DetectSignature :: "string \<Rightarrow> FailureSignature" where
  "DetectSignature failureMessage =
     (if failureMessage = [] then SignatureUnknown
      else detectIn signaturePatterns failureMessage)"

definition maxExcerptLen :: nat where
  "maxExcerptLen = 200"

definition truncateExcerpt :: "string \<Rightarrow> string" where
  "truncateExcerpt s =
     (let s' = Join (Fields s) '' ''
      in if length s' \<le> maxExcerptLen then s'
         else take (maxExcerptLen - 3) s' @ ''...'')"

section \<open>Aggregation and classification (internal/classify)\<close>

record testAggregator =
  testID :: string
  passCount :: int
  failCount :: int
  skipCount :: int
  totalDuration :: Duration
  durationCount :: int
  failureEvidence :: "FailureEvidence list"

definition newAggregator :: "string \<Rightarrow> testAggregator" where
  "newAggregator tid =
     \<lparr> testID = tid, passCount = 0, failCount = 0, skipCount = 0,
       totalDuration = 0, durationCount = 0, failureEvidence = [] \<rparr>"

definition recordOutcome :: "int \<Rightarrow> TestResult \<Rightarrow> testAggregator \<Rightarrow> testAggregator" where
  \<comment> \<open>the \<^verbatim>\<open>switch test.Outcome\<close> of \<^verbatim>\<open>Aggregate\<close>, for a test of the run with index \<open>runIndex\<close>\<close>
  "recordOutcome runIndex test agg =
     (case Outcome test of
        OutcomePass \<Rightarrow>
          agg \<lparr> passCount := passCount agg + 1,
                totalDuration := totalDuration agg + Duration test,
                durationCount := durationCount agg + 1 \<rparr>
      | OutcomeFail \<Rightarrow>
          agg \<lparr> failCount := failCount agg + 1,
                totalDuration := totalDuration agg + Duration test,
                durationCount := durationCount agg + 1,
                failureEvidence := failureEvidence agg @
                  [\<lparr> ev_RunIndex = runIndex,
                     Excerpt = truncateExcerpt (FailureMessage test),
                     Signature = DetectSignature (FailureMessage test) \<rparr>] \<rparr>
      | OutcomeSkip \<Rightarrow>
          agg \<lparr> skipCount := skipCount agg + 1 \<rparr>)"

text \<open>
  The Go map \<^verbatim>\<open>aggregators\<close> is an association list with distinct keys, in the order
  in which the keys were first seen. Go iterates over a map in an unspecified order;
  the order of the association list is one such order, and the sorted result is
  shown below not to depend on it.
\<close>

type_synonym aggregators = "(string \<times> testAggregator) list"

fun store :: "'k \<Rightarrow> 'v \<Rightarrow> ('k \<times> 'v) list \<Rightarrow> ('k \<times> 'v) list" where
  \<comment> \<open>the assignment \<^verbatim>\<open>m[k] = v\<close> to a Go map\<close>
  "store k v [] = [(k, v)]"
| "store k v ((k', v') # rest) =
     (if k = k' then (k, v) # rest else (k', v') # store k v rest)"

definition processTest :: "int \<Rightarrow> aggregators \<Rightarrow> TestResult \<Rightarrow> aggregators" where
  "processTest runIndex aggs test =
     (let agg = (case map_of aggs (TestID test) of
                   None \<Rightarrow> newAggregator (TestID test)
                 | Some a \<Rightarrow> a)
      in store (TestID test) (recordOutcome runIndex test agg) aggs)"

definition processRun :: "aggregators \<Rightarrow> RunResult \<Rightarrow> aggregators" where
  "processRun aggs run = foldl (processTest (RunIndex run)) aggs (Tests run)"

definition accumulate :: "RunResult list \<Rightarrow> aggregators" where
  "accumulate runs = foldl processRun [] runs"

definition classify :: "int \<Rightarrow> int \<Rightarrow> int \<Rightarrow> Classification" where
  "classify passCount' failCount' totalRuns =
     (if totalRuns = 0 then ClassificationStable
      else if passCount' \<ge> 1 \<and> failCount' \<ge> 1 then ClassificationFlaky
      else if failCount' = totalRuns then ClassificationDeterministicFail
      else ClassificationStable)"

definition lessEvidence :: "FailureEvidence \<Rightarrow> FailureEvidence \<Rightarrow> bool" where
  "lessEvidence a b = (ev_RunIndex a < ev_RunIndex b)"

definition buildAggregatedTest :: "testAggregator \<Rightarrow> int \<Rightarrow> AggregatedTest" where
  "buildAggregatedTest agg numRuns =
     (let totalRuns = passCount agg + failCount agg;
          avgDuration = (if durationCount agg > 0
                         then Duration_div (totalDuration agg) (word_of_int (durationCount agg))
                         else 0);
          classification = classify (passCount agg) (failCount agg) totalRuns;
          flakeRate = (if totalRuns > 0
                       then fdiv (float64_of_int (failCount agg)) (float64_of_int totalRuns)
                       else 0);
          wastedTime = (if classification = ClassificationFlaky \<and> totalRuns > 0
                        then Duration_of_float
                               (fmul (fmul flakeRate (float64_of_int (sint avgDuration)))
                                     (float64_of_int numRuns))
                        else 0);
          sortedEvidence = sort_Slice lessEvidence (failureEvidence agg)
      in \<lparr> at_TestID = testID agg,
           PassCount = passCount agg,
           FailCount = failCount agg,
           SkipCount = skipCount agg,
           TotalRuns = totalRuns,
           AvgDuration = avgDuration,
           Classification = classification,
           FlakeRate = flakeRate,
           WastedTime = wastedTime,
           at_FailureEvidence = sortedEvidence \<rparr>)"

definition lessAggregated :: "AggregatedTest \<Rightarrow> AggregatedTest \<Rightarrow> bool" where
  \<comment> \<open>the comparison function of \<^verbatim>\<open>sortAggregatedTests\<close>\<close>
  "lessAggregated a b =
     (if WastedTime a \<noteq> WastedTime b then sint (WastedTime a) > sint (WastedTime b)
      else if FlakeRate a \<noteq> FlakeRate b then FlakeRate a > FlakeRate b
      else if FailCount a \<noteq> FailCount b then FailCount a > FailCount b
      else at_TestID a < at_TestID b)"

definition sortAggregatedTests :: "AggregatedTest list \<Rightarrow> AggregatedTest list" where
  "sortAggregatedTests tests = sort_Slice lessAggregated tests"

definition builtTests :: "RunResult list \<Rightarrow> AggregatedTest list" where
  \<comment> \<open>the slice \<^verbatim>\<open>results\<close> of \<^verbatim>\<open>Aggregate\<close> before it is sorted\<close>
  "builtTests runs =
     map (\<lambda>(_, agg). buildAggregatedTest agg (int (length runs))) (accumulate runs)"

definition Aggregate :: "RunResult list \<Rightarrow> AggregatedTest list" where
  "Aggregate runs =
     (if length runs = 0 then []
      else sortAggregatedTests (builtTests runs))"

definition signatureString :: "FailureSignature \<Rightarrow> string" where
  "signatureString sig =
     (case sig of
        SignatureTimeout \<Rightarrow> ''TIMEOUT''
      | SignatureSelector \<Rightarrow> ''SELECTOR''
      | SignatureNetwork \<Rightarrow> ''NETWORK''
      | SignatureDOMDetach \<Rightarrow> ''DOM_DETACH''
      | SignatureAssertion \<Rightarrow> ''ASSERTION''
      | SignatureUnknown \<Rightarrow> ''UNKNOWN'')"

text \<open>
  The result of \<^verbatim>\<open>SignatureSummary\<close> is a Go \<^verbatim>\<open>map[string]int\<close>: an association list
  with distinct keys. \<open>increment\<close> is the statement \<^verbatim>\<open>summary[key]++\<close>, which reads 0 for
  a key that is not yet in the map.
\<close>

fun increment :: "string \<Rightarrow> (string \<times> int) list \<Rightarrow> (string \<times> int) list" where
  "increment k [] = [(k, 1)]"
| "increment k ((k', n) # rest) =
     (if k = k' then (k', n + 1) # rest else (k', n) # increment k rest)"

definition SignatureSummary :: "AggregatedTest list \<Rightarrow> (string \<times> int) list" where
  "SignatureSummary tests =
     foldl (\<lambda>summary t.
              foldl (\<lambda>summary ev. increment (signatureString (Signature ev)) summary)
                summary (at_FailureEvidence t))
       [] tests"

section \<open>The execution loop (internal/runner)\<close>

subsection \<open>Formatting and paths\<close>

definition digitChar :: "nat \<Rightarrow> char" where
  "digitChar d = char_of (48 + d)"

fun decimal :: "nat \<Rightarrow> string" where
  "decimal n = (if n < 10 then [digitChar n] else decimal (n div 10) @ [digitChar (n mod 10)])"

declare decimal.simps [simp del]

definition formatInt :: "int \<Rightarrow> string" where
  \<comment> \<open>\<^verbatim>\<open>fmt.Sprintf("%d", n)\<close>\<close>
  "formatInt n = (if n < 0 then ''-'' @ decimal (nat (- n)) else decimal (nat n))"

definition formatRunDir :: "nat \<Rightarrow> string" where
  \<comment> \<open>\<^verbatim>\<open>fmt.Sprintf("%03d", i)\<close> for \<open>i \<ge> 0\<close>: at least three digits, padded with zeros\<close>
  "formatRunDir i = replicate (3 - length (decimal i)) CHR ''0'' @ decimal i"

definition pathJoin :: "string \<Rightarrow> string \<Rightarrow> string" where
  \<comment> \<open>\<^verbatim>\<open>filepath.Join\<close> of two elements; the cleaning of the joined path (\<^verbatim>\<open>filepath.Clean\<close>)
      is left out, which only changes how a path is spelled\<close>
  "pathJoin a b = (if a = [] then b else if b = [] then a else a @ ''/'' @ b)"

subsection \<open>Configuration, adapter and environment\<close>

text \<open>
  An adapter is the three operations of the interface \<^verbatim>\<open>model.Adapter\<close>. \<open>Parse\<close> reads
  the artifacts that the child process left in the run directory; every run has a
  directory of its own and is parsed once, so what \<open>Parse\<close> finds there is a function of
  the directory. An error is the text of \<^verbatim>\<open>err.Error()\<close>.
\<close>

record Adapter =
  BuildCommand :: "string \<Rightarrow> string list \<Rightarrow> string list"
  Parse :: "string \<Rightarrow> string + RunResult"
  ExpectedArtifact :: "string \<Rightarrow> string"

record Config =
  Runs :: int
  Timeout :: Duration
  OutDir :: string
  KeepRuns :: int
  Tool :: string
  Command :: "string list"
  Adapter :: "Adapter option"

record Result =
  RunResults :: "RunResult list"
  RunsExecuted :: int
  LatestDir :: string

text \<open>
  What the process observes of its surroundings while \<^verbatim>\<open>Run\<close> executes: the reading of
  the clock and the state of the context at the check before run \<open>i\<close>, and the outcome
  of each file-system call, \<open>None\<close> when it succeeds and the error text otherwise. The
  child process itself is started by \<^verbatim>\<open>cmd.Run()\<close>, whose error the code discards.
\<close>

record World =
  elapsed :: "nat \<Rightarrow> Duration"
  cancelled :: "nat \<Rightarrow> bool"
  removeAll :: "string \<Rightarrow> string option"
  mkdirAll :: "string \<Rightarrow> string option"
  createFile :: "string \<Rightarrow> string option"
  notExist :: "string \<Rightarrow> bool"
  readDirError :: "string \<Rightarrow> string option"

text \<open>
  Besides its return value, \<^verbatim>\<open>Run\<close> leaves run directories on disk, removes some of them
  again and writes warnings to standard error.
\<close>

record RunOutcome =
  result :: Result
  createdDirs :: "string list"
  removedDirs :: "string list"
  warnings :: "string list"

subsection \<open>executeRun\<close>

definition executeRun :: "World \<Rightarrow> Config \<Rightarrow> Adapter \<Rightarrow> string \<Rightarrow> int \<Rightarrow> string + RunResult" where
  "executeRun w cfg adapter runDir runIndex =
     (let cmdArgs = BuildCommand adapter runDir (Command cfg)
      in if length cmdArgs = 0 then Inl ''adapter returned empty command''
         else case createFile w (pathJoin runDir ''stdout.txt'') of
           Some err \<Rightarrow> Inl (''failed to create stdout.txt: '' @ err)
         | None \<Rightarrow>
         (case createFile w (pathJoin runDir ''stderr.txt'') of
           Some err \<Rightarrow> Inl (''failed to create stderr.txt: '' @ err)
         | None \<Rightarrow>
           \<comment> \<open>the child process runs here; a non-zero exit is not an error\<close>
           (let artifactPath = ExpectedArtifact adapter runDir
            in if notExist w artifactPath
               then Inl (''expected artifact not found: '' @ artifactPath
                         @ ''. Ensure the test command produces the required output file'')
               else case Parse adapter runDir of
                 Inl err \<Rightarrow> Inl (''failed to parse run results: '' @ err)
               | Inr res \<Rightarrow> Inr (res \<lparr> RunIndex := runIndex \<rparr>))))"

subsection \<open>Run\<close>

definition timedOut :: "World \<Rightarrow> Config \<Rightarrow> nat \<Rightarrow> bool" where
  \<comment> \<open>\<^verbatim>\<open>cfg.Timeout > 0 && time.Since(startTime) >= cfg.Timeout\<close> at the check before run \<open>i\<close>\<close>
  "timedOut w cfg i = (0 < sint (Timeout cfg) \<and> sint (Timeout cfg) \<le> sint (elapsed w i))"

definition runRecord :: "World \<Rightarrow> Config \<Rightarrow> Adapter \<Rightarrow> string \<Rightarrow> nat \<Rightarrow> RunResult" where
  \<comment> \<open>the record appended for run \<open>i\<close>: the parsed result, or the error of the run\<close>
  "runRecord w cfg adapter runsDir i =
     (case executeRun w cfg adapter (pathJoin runsDir (formatRunDir i)) (int i) of
        Inr res \<Rightarrow> res
      | Inl err \<Rightarrow> \<lparr> RunIndex = int i, Tests = [], Error = err \<rparr>)"

function runLoop ::
  "World \<Rightarrow> Config \<Rightarrow> Adapter \<Rightarrow> string \<Rightarrow> nat \<Rightarrow> RunResult list \<times> string list
     \<Rightarrow> string + RunResult list \<times> string list" where
  "runLoop w cfg adapter runsDir i (runResults, dirs) =
     (if int i \<le> Runs cfg then
        if timedOut w cfg i then Inr (runResults, dirs)
        else if cancelled w i then Inr (runResults, dirs)
        else let runDir = pathJoin runsDir (formatRunDir i)
             in case mkdirAll w runDir of
               Some err \<Rightarrow> Inl (''failed to create run directory '' @ runDir @ '': '' @ err)
             | None \<Rightarrow>
                 runLoop w cfg adapter runsDir (Suc i)
                   (runResults @ [runRecord w cfg adapter runsDir i], dirs @ [formatRunDir i])
      else Inr (runResults, dirs))"
  by pat_completeness auto
termination
  by (relation "measure (\<lambda>(w, cfg, adapter, runsDir, i, acc). nat (Runs cfg + 1 - int i))") auto

declare runLoop.simps [simp del]

fun removeEach :: "World \<Rightarrow> string \<Rightarrow> string list \<Rightarrow> string list \<Rightarrow> string option \<times> string list" where
  \<comment> \<open>the loop over \<^verbatim>\<open>toRemove\<close>: it returns at the first directory that cannot be removed\<close>
  "removeEach w runsDir [] removed = (None, removed)"
| "removeEach w runsDir (dir # rest) removed =
     (let path = pathJoin runsDir dir
      in case removeAll w path of
        Some err \<Rightarrow> (Some (''failed to remove '' @ path @ '': '' @ err), removed)
      | None \<Rightarrow> removeEach w runsDir rest (removed @ [dir]))"

definition cleanupOldRuns ::
  "World \<Rightarrow> string \<Rightarrow> int \<Rightarrow> string list \<Rightarrow> string option \<times> string list" where
  \<comment> \<open>\<open>entries\<close> are the names of the directories in \<open>runsDir\<close>; the result is the error, if
      any, and the directories removed\<close>
  "cleanupOldRuns w runsDir keepRuns entries =
     (case readDirError w runsDir of
        Some err \<Rightarrow> (Some err, [])
      | None \<Rightarrow>
          (let dirs = sort_Slice (<) entries
           in if int (length dirs) > keepRuns
              then removeEach w runsDir (take (nat (int (length dirs) - keepRuns)) dirs) []
              else (None, [])))"

definition Run :: "World \<Rightarrow> Config \<Rightarrow> string + RunOutcome" where
  "Run w cfg =
     (if Runs cfg \<le> 0
      then Inl (''--runs must be a positive integer, got '' @ formatInt (Runs cfg))
      else if length (Command cfg) = 0 then Inl ''test command is required after --''
      else case Adapter cfg of
        None \<Rightarrow> Inl ''adapter is required''
      | Some adapter \<Rightarrow>
          (let latestDir = pathJoin (OutDir cfg) ''latest'';
               runsDir = pathJoin latestDir ''runs''
           in case removeAll w latestDir of
             Some err \<Rightarrow> Inl (''failed to clean output directory '' @ latestDir @ '': '' @ err)
           | None \<Rightarrow>
           (case mkdirAll w runsDir of
             Some err \<Rightarrow> Inl (''failed to create runs directory '' @ runsDir @ '': '' @ err)
           | None \<Rightarrow>
           (case runLoop w cfg adapter runsDir 1 ([], []) of
             Inl err \<Rightarrow> Inl err
           | Inr (runResults, dirs) \<Rightarrow>
               (let (cleanupErr, removed) =
                      (if KeepRuns cfg > 0 \<and> int (length runResults) > KeepRuns cfg
                       then cleanupOldRuns w runsDir (KeepRuns cfg) dirs
                       else (None, []))
                in Inr \<lparr> result = \<lparr> RunResults = runResults,
                                    RunsExecuted = int (length runResults),
                                    LatestDir = latestDir \<rparr>,
                         createdDirs = dirs,
                         removedDirs = removed,
                         warnings = (case cleanupErr of
                                       None \<Rightarrow> []
                                     | Some err \<Rightarrow>
                                         [''warning: failed to cleanup old runs: '' @ err
                                          @ [CHR 0x0A]]) \<rparr>)))))"

section \<open>The Jest adapter (internal/adapters/jest)\<close>

definition artifactFilename :: string where
  "artifactFilename = ''jest.json''"

definition HasPrefix :: "string \<Rightarrow> string \<Rightarrow> bool" where
  "HasPrefix s prefix = (take (length prefix) s = prefix)"

definition executionModeFlags :: "string list" where
  "executionModeFlags = [''--runInBand'', ''--maxWorkers'', ''-w'', ''--workerThreads'']"

definition jestBuildCommand :: "string \<Rightarrow> string list \<Rightarrow> string list" where
  "jestBuildCommand runDir userCmd =
     (if length userCmd = 0 then []
      else let outputPath = pathJoin runDir artifactFilename;
               hasExecutionMode =
                 list_ex (\<lambda>arg. list_ex (\<lambda>flag. HasPrefix arg flag \<or> arg = ''-i'')
                                   executionModeFlags) userCmd;
               withMode = userCmd @ (if \<not> hasExecutionMode then [''--runInBand''] else [])
           in withMode @ [''--json'', ''--outputFile'', outputPath])"

text \<open>
  The decoded artifact. Of \<^verbatim>\<open>JestOutput\<close> only the field \<^verbatim>\<open>testResults\<close> is read; the
  summary counters are left out.
\<close>

record AssertionResult =
  ar_FullName :: string
  ar_Status :: string
  ar_Title :: string
  ar_Duration :: "64 word"
  ar_FailureMessages :: "string list"

record JestTestResult =
  jt_Name :: string
  jt_Status :: string
  jt_AssertionResults :: "AssertionResult list"

record JestOutput =
  jo_TestResults :: "JestTestResult list"

record ParseError =
  pe_File :: string
  pe_Message :: string
  pe_Action :: string

definition ParseError_Error :: "ParseError \<Rightarrow> string" where
  "ParseError_Error e =
     ''parse error in '' @ pe_File e @ '': '' @ pe_Message e @ ''. '' @ pe_Action e"

definition mapStatus :: "string \<Rightarrow> string + Outcome" where
  "mapStatus status =
     (if status = ''passed'' then Inr OutcomePass
      else if status = ''failed'' then Inr OutcomeFail
      else if status \<in> set [''pending'', ''skipped'', ''todo'', ''disabled''] then Inr OutcomeSkip
      else Inl (''unknown status: '' @ status))"

definition quoted :: "string \<Rightarrow> string" where
  \<comment> \<open>the verb \<^verbatim>\<open>%q\<close>; the escaping of special characters inside the quotes is left out\<close>
  "quoted s = [CHR 0x22] @ s @ [CHR 0x22]"

definition assertionAt :: "nat \<Rightarrow> nat \<Rightarrow> string" where
  "assertionAt i j =
     ''testResults['' @ decimal i @ ''].assertionResults['' @ decimal j @ '']''"

fun extractAssertions ::
  "string \<Rightarrow> nat \<Rightarrow> string \<Rightarrow> nat \<Rightarrow> AssertionResult list \<Rightarrow> TestResult list
     \<Rightarrow> ParseError + TestResult list" where
  \<comment> \<open>the inner loop of \<^verbatim>\<open>extractTests\<close>, from assertion \<open>j\<close> of test file \<open>i\<close> on\<close>
  "extractAssertions artifactPath i name j [] tests = Inr tests"
| "extractAssertions artifactPath i name j (assertion # rest) tests =
     (if ar_FullName assertion = []
      then Inl \<lparr> pe_File = artifactPath,
                 pe_Message = assertionAt i j @ ''.fullName is missing or empty'',
                 pe_Action = ''Jest output is malformed. Each assertion result must have a 'fullName' field.'' \<rparr>
      else if ar_Status assertion = []
      then Inl \<lparr> pe_File = artifactPath,
                 pe_Message = assertionAt i j @ ''.status is missing or empty'',
                 pe_Action = ''Jest output is malformed. Each assertion result must have a 'status' field.'' \<rparr>
      else case mapStatus (ar_Status assertion) of
        Inl err \<Rightarrow>
          Inl \<lparr> pe_File = artifactPath,
                pe_Message = assertionAt i j @ ''.status has unknown value: ''
                             @ quoted (ar_Status assertion),
                pe_Action = ''Jest produced an unexpected status value. Expected: 'passed', 'failed', 'pending', or 'skipped'.'' \<rparr>
      | Inr outcome \<Rightarrow>
          extractAssertions artifactPath i name (Suc j) rest
            (tests @
              [\<lparr> TestID = name @ ''::'' @ ar_FullName assertion,
                 Outcome = outcome,
                 Duration = ar_Duration assertion * 1000000,
                 FailureMessage =
                   (if length (ar_FailureMessages assertion) > 0
                    then Join (ar_FailureMessages assertion) [CHR 0x0A]
                    else []) \<rparr>]))"

fun extractFiles ::
  "string \<Rightarrow> nat \<Rightarrow> JestTestResult list \<Rightarrow> TestResult list \<Rightarrow> ParseError + TestResult list" where
  \<comment> \<open>the outer loop of \<^verbatim>\<open>extractTests\<close>, from test file \<open>i\<close> on\<close>
  "extractFiles artifactPath i [] tests = Inr tests"
| "extractFiles artifactPath i (testResult # rest) tests =
     (if jt_Name testResult = []
      then Inl \<lparr> pe_File = artifactPath,
                 pe_Message = ''testResults['' @ decimal i @ ''].name is missing or empty'',
                 pe_Action = ''Jest output is malformed. Each test result must have a 'name' field containing the file path.'' \<rparr>
      else case extractAssertions artifactPath i (jt_Name testResult) 0
                  (jt_AssertionResults testResult) tests of
        Inl err \<Rightarrow> Inl err
      | Inr tests' \<Rightarrow> extractFiles artifactPath (Suc i) rest tests')"

definition extractTests :: "JestOutput \<Rightarrow> string \<Rightarrow> ParseError + TestResult list" where
  "extractTests output artifactPath = extractFiles artifactPath 0 (jo_TestResults output) []"

text \<open>
  What \<^verbatim>\<open>Parse\<close> finds at the artifact path: a file that cannot be read, an empty file,
  bytes that are not JSON for \<^verbatim>\<open>JestOutput\<close>, or a decoded \<^verbatim>\<open>JestOutput\<close>.
\<close>

datatype JestFile =
  JestUnreadable string | JestEmpty | JestInvalidJSON string | JestDecoded JestOutput

definition lessTestID :: "TestResult \<Rightarrow> TestResult \<Rightarrow> bool" where
  "lessTestID a b = (TestID a < TestID b)"

definition jestParse :: "(string \<Rightarrow> JestFile) \<Rightarrow> string \<Rightarrow> ParseError + RunResult" where
  "jestParse disk runDir =
     (let artifactPath = pathJoin runDir artifactFilename
      in case disk artifactPath of
        JestUnreadable err \<Rightarrow>
          Inl \<lparr> pe_File = artifactPath,
                pe_Message = ''failed to read file: '' @ err,
                pe_Action = ''Ensure Jest completed and produced output. Check that --outputFile was used correctly.'' \<rparr>
      | JestEmpty \<Rightarrow>
          Inl \<lparr> pe_File = artifactPath,
                pe_Message = ''file is empty'',
                pe_Action = ''Ensure Jest completed successfully. The JSON output file should not be empty.'' \<rparr>
      | JestInvalidJSON err \<Rightarrow>
          Inl \<lparr> pe_File = artifactPath,
                pe_Message = ''invalid JSON: '' @ err,
                pe_Action = ''Ensure Jest produced valid JSON output. The file may be corrupted or incomplete.'' \<rparr>
      | JestDecoded jestOutput \<Rightarrow>
          (case extractTests jestOutput artifactPath of
             Inl err \<Rightarrow> Inl err
           | Inr tests \<Rightarrow>
               Inr \<lparr> RunIndex = 0, Tests = sort_Slice lessTestID tests, Error = [] \<rparr>))"

definition jestAdapter :: "(string \<Rightarrow> JestFile) \<Rightarrow> Adapter" where
  "jestAdapter disk =
     \<lparr> BuildCommand = jestBuildCommand,
       Parse = (\<lambda>runDir. case jestParse disk runDir of
                           Inl err \<Rightarrow> Inl (ParseError_Error err)
                         | Inr res \<Rightarrow> Inr res),
       ExpectedArtifact = (\<lambda>runDir. pathJoin runDir artifactFilename) \<rparr>"

section \<open>The Cypress adapter (internal/adapters/cypress)\<close>

record JUnitFailure =
  jf_Message :: string
  jf_Type :: string
  jf_Content :: string

record JUnitSkipped =
  js_Message :: string

text \<open>
  \<^verbatim>\<open>JUnitError\<close> has the fields of \<^verbatim>\<open>JUnitFailure\<close> and is given the same type. The
  attribute \<^verbatim>\<open>time\<close> is a finite \<^verbatim>\<open>float64\<close>. Of a test suite only its test cases are read.
\<close>

record JUnitTestCase =
  tc_Name :: string
  tc_Classname :: string
  tc_Time :: rat
  tc_Failure :: "JUnitFailure option"
  tc_Error :: "JUnitFailure option"
  tc_Skipped :: "JUnitSkipped option"

record JUnitTestSuite =
  ts_Name :: string
  ts_TestCases :: "JUnitTestCase list"

text \<open>
  What \<^verbatim>\<open>parseXMLFile\<close> finds at a path: a file that cannot be read, an empty file, or
  bytes whose decoding has a root element \<^verbatim>\<open>testsuites\<close>, a root element \<^verbatim>\<open>testsuite\<close>, or
  fails for both.
\<close>

datatype XMLFile =
  XMLUnreadable string | XMLEmpty
  | RootTestSuites "JUnitTestSuite list" | RootTestSuite JUnitTestSuite | NotJUnit

function trimLeft :: "string \<Rightarrow> string" where
  "trimLeft s = (if spaceLen s = 0 then s else trimLeft (drop (spaceLen s) s))"
  by pat_completeness auto
termination
  by (relation "measure length") (auto simp: spaceLen_def split: list.splits)

definition trailingSpaceLen :: "string \<Rightarrow> nat" where
  \<comment> \<open>the number of bytes of the white-space character at the end of \<open>s\<close>, or 0\<close>
  "trailingSpaceLen s =
     (if 1 \<le> length s \<and> spaceLen (drop (length s - 1) s) = 1 then 1
      else if 2 \<le> length s \<and> spaceLen (drop (length s - 2) s) = 2 then 2
      else if 3 \<le> length s \<and> spaceLen (drop (length s - 3) s) = 3 then 3
      else 0)"

function trimRight :: "string \<Rightarrow> string" where
  "trimRight s =
     (if trailingSpaceLen s = 0 then s else trimRight (take (length s - trailingSpaceLen s) s))"
  by pat_completeness auto
termination
  by (relation "measure length") (auto simp: trailingSpaceLen_def split: if_splits)

definition TrimSpace :: "string \<Rightarrow> string" where
  "TrimSpace s = trimRight (trimLeft s)"

definition parseXMLFile :: "(string \<Rightarrow> XMLFile) \<Rightarrow> string \<Rightarrow> string + JUnitTestCase list" where
  "parseXMLFile disk xmlPath =
     (case disk xmlPath of
        XMLUnreadable err \<Rightarrow> Inl (''failed to read XML file '' @ xmlPath @ '': '' @ err)
      | XMLEmpty \<Rightarrow> Inl (''XML file '' @ xmlPath @ '' is empty'')
      | RootTestSuites suites \<Rightarrow>
          if length suites > 0 then Inr (concat (map ts_TestCases suites))
          else Inl (''failed to parse XML file '' @ xmlPath
                    @ '': invalid JUnit format or no test cases found'')
      | RootTestSuite suite \<Rightarrow>
          if length (ts_TestCases suite) > 0 then Inr (ts_TestCases suite)
          else Inl (''failed to parse XML file '' @ xmlPath
                    @ '': invalid JUnit format or no test cases found'')
      | NotJUnit \<Rightarrow>
          Inl (''failed to parse XML file '' @ xmlPath
               @ '': invalid JUnit format or no test cases found''))"

definition buildTestID :: "string \<Rightarrow> string \<Rightarrow> string" where
  "buildTestID classname name =
     (let classname' = TrimSpace classname; name' = TrimSpace name
      in if classname' = [] \<or> name' = [] then [] else classname' @ ''::'' @ name')"

definition determineOutcome :: "JUnitTestCase \<Rightarrow> Outcome" where
  "determineOutcome tc =
     (if tc_Skipped tc \<noteq> None then OutcomeSkip
      else if tc_Failure tc \<noteq> None \<or> tc_Error tc \<noteq> None then OutcomeFail
      else OutcomePass)"

definition extractFailureMessage :: "string \<Rightarrow> string \<Rightarrow> string" where
  "extractFailureMessage message content =
     (let msg = TrimSpace message;
          msg = (if msg = [] then TrimSpace content else msg)
      in if length msg > 500 then take 500 msg @ ''...'' else msg)"

definition caseResult :: "string \<Rightarrow> JUnitTestCase \<Rightarrow> TestResult" where
  \<comment> \<open>the \<^verbatim>\<open>model.TestResult\<close> that \<^verbatim>\<open>Parse\<close> builds for a test case\<close>
  "caseResult tid tc =
     \<lparr> TestID = tid,
       Outcome = determineOutcome tc,
       Duration = Duration_of_float (fmul (tc_Time tc) (float64_of_int 1000000000)),
       FailureMessage =
         (case tc_Failure tc of
            Some f \<Rightarrow> extractFailureMessage (jf_Message f) (jf_Content f)
          | None \<Rightarrow>
              (case tc_Error tc of
                 Some e \<Rightarrow> extractFailureMessage (jf_Message e) (jf_Content e)
               | None \<Rightarrow> [])) \<rparr>"

type_synonym testMap = "(string \<times> TestResult) list"

fun mergeCases :: "string \<Rightarrow> JUnitTestCase list \<Rightarrow> testMap \<Rightarrow> string + testMap" where
  \<comment> \<open>the loop over the test cases of the file \<open>xmlFile\<close>\<close>
  "mergeCases xmlFile [] testMap = Inr testMap"
| "mergeCases xmlFile (tc # rest) testMap =
     (let testID = buildTestID (tc_Classname tc) (tc_Name tc)
      in if testID = []
         then Inl (''invalid test case in '' @ xmlFile @ '': missing classname or name attribute'')
         else mergeCases xmlFile rest (store testID (caseResult testID tc) testMap))"

fun mergeFiles :: "(string \<Rightarrow> XMLFile) \<Rightarrow> string list \<Rightarrow> testMap \<Rightarrow> string + testMap" where
  \<comment> \<open>the loop over \<^verbatim>\<open>xmlFiles\<close>\<close>
  "mergeFiles disk [] testMap = Inr testMap"
| "mergeFiles disk (xmlFile # rest) testMap =
     (case parseXMLFile disk xmlFile of
        Inl err \<Rightarrow> Inl err
      | Inr testCases \<Rightarrow>
          (case mergeCases xmlFile testCases testMap of
             Inl err \<Rightarrow> Inl err
           | Inr testMap' \<Rightarrow> mergeFiles disk rest testMap'))"

text \<open>
  \<open>glob\<close> is the result of \<^verbatim>\<open>filepath.Glob\<close> for the XML files of the run directory: an
  error, or the paths in the order in which they were found. The keys of the final map
  are sorted before the tests are read off, so that the order in which Go iterates
  over the map does not matter.
\<close>

definition cypressParse ::
  "(string \<Rightarrow> string + string list) \<Rightarrow> (string \<Rightarrow> XMLFile) \<Rightarrow> string \<Rightarrow> string + RunResult" where
  "cypressParse glob disk runDir =
     (case glob runDir of
        Inl err \<Rightarrow> Inl (''failed to glob XML files in '' @ runDir @ '': '' @ err)
      | Inr found \<Rightarrow>
          if length found = 0
          then Inl (''no XML files found in '' @ runDir
                    @ '': ensure Cypress is configured with JUnit reporter'')
          else (let xmlFiles = sort_Slice (<) found
                in case mergeFiles disk xmlFiles [] of
                  Inl err \<Rightarrow> Inl err
                | Inr testMap \<Rightarrow>
                    (let testIDs = sort_Slice (<) (map fst testMap);
                         tests = map (\<lambda>tid. the (map_of testMap tid)) testIDs
                     in Inr \<lparr> RunIndex = 0, Tests = tests, Error = [] \<rparr>)))"

definition cypressBuildCommand :: "string \<Rightarrow> string list \<Rightarrow> string list" where
  "cypressBuildCommand runDir userCmd =
     (if length userCmd = 0 then []
      else let reporterOpts = ''mochaFile='' @ runDir @ ''/[hash].xml''
           in userCmd @ [''--reporter'', ''junit''] @ [''--reporter-options'', reporterOpts])"

definition cypressAdapter ::
  "(string \<Rightarrow> string + string list) \<Rightarrow> (string \<Rightarrow> XMLFile) \<Rightarrow> Adapter" where
  "cypressAdapter glob disk =
     \<lparr> BuildCommand = cypressBuildCommand,
       Parse = cypressParse glob disk,
       ExpectedArtifact = (\<lambda>runDir. runDir) \<rparr>"

section \<open>Notions used to state the properties\<close>

definition occurrences :: "RunResult list \<Rightarrow> (int \<times> TestResult) list" where
  \<comment> \<open>every test entry of every run, in the order in which \<^verbatim>\<open>Aggregate\<close> visits them,
      with the index of its run\<close>
  "occurrences runs = concat (map (\<lambda>run. map (Pair (RunIndex run)) (Tests run)) runs)"

definition occurrencesOf :: "string \<Rightarrow> RunResult list \<Rightarrow> (int \<times> TestResult) list" where
  "occurrencesOf tid runs = filter (\<lambda>(i, t). TestID t = tid) (occurrences runs)"

definition replay :: "testAggregator \<Rightarrow> (int \<times> TestResult) list \<Rightarrow> testAggregator" where
  "replay agg occs = foldl (\<lambda>a (i, t). recordOutcome i t a) agg occs"

definition countOutcome :: "Outcome \<Rightarrow> (int \<times> TestResult) list \<Rightarrow> int" where
  "countOutcome oc occs = int (length (filter (\<lambda>(i, t). Outcome t = oc) occs))"

definition runsContaining :: "string \<Rightarrow> RunResult list \<Rightarrow> nat" where
  \<comment> \<open>the number of run records in which the identity appears\<close>
  "runsContaining tid runs =
     length (filter (\<lambda>run. tid \<in> set (map TestID (Tests run))) runs)"

definition specBefore :: "AggregatedTest \<Rightarrow> AggregatedTest \<Rightarrow> bool" where
  \<comment> \<open>The order as the specification words it: wasted time descending, then flake rate
      descending, then fail count descending, then identity ascending.\<close>
  "specBefore a b =
     (sint (WastedTime a) > sint (WastedTime b) \<or>
      (WastedTime a = WastedTime b \<and>
       (FlakeRate a > FlakeRate b \<or>
        (FlakeRate a = FlakeRate b \<and>
         (FailCount a > FailCount b \<or>
          (FailCount a = FailCount b \<and> at_TestID a < at_TestID b))))))"

definition sortKey :: "AggregatedTest \<Rightarrow> int \<times> rat \<times> int \<times> string" where
  \<comment> \<open>the same order as a lexicographic order on tuples\<close>
  "sortKey a = (- sint (WastedTime a), - FlakeRate a, - FailCount a, at_TestID a)"

definition latestDirOf :: "Config \<Rightarrow> string" where
  "latestDirOf cfg = pathJoin (OutDir cfg) ''latest''"

definition runsDirOf :: "Config \<Rightarrow> string" where
  "runsDirOf cfg = pathJoin (latestDirOf cfg) ''runs''"

definition runDirOf :: "Config \<Rightarrow> nat \<Rightarrow> string" where
  "runDirOf cfg i = pathJoin (runsDirOf cfg) (formatRunDir i)"

definition stopBefore :: "World \<Rightarrow> Config \<Rightarrow> nat \<Rightarrow> bool" where
  \<comment> \<open>at the check before run \<open>i\<close>, the timeout has elapsed or cancellation was requested\<close>
  "stopBefore w cfg i = (timedOut w cfg i \<or> cancelled w i)"

definition setupOk :: "World \<Rightarrow> Config \<Rightarrow> bool" where
  \<comment> \<open>the configuration is accepted and the output directories are prepared\<close>
  "setupOk w cfg =
     (0 < Runs cfg \<and> Command cfg \<noteq> [] \<and>
      removeAll w (latestDirOf cfg) = None \<and> mkdirAll w (runsDirOf cfg) = None)"

definition runFails :: "World \<Rightarrow> Config \<Rightarrow> Adapter \<Rightarrow> string \<Rightarrow> bool" where
  \<comment> \<open>the set-up of the execution fails, the expected artifact is missing after the
      execution, or parsing fails\<close>
  "runFails w cfg adapter runDir =
     (BuildCommand adapter runDir (Command cfg) = [] \<or>
      createFile w (pathJoin runDir ''stdout.txt'') \<noteq> None \<or>
      createFile w (pathJoin runDir ''stderr.txt'') \<noteq> None \<or>
      notExist w (ExpectedArtifact adapter runDir) \<or>
      isl (Parse adapter runDir))"

definition casePairs :: "JUnitTestCase list \<Rightarrow> (string \<times> TestResult) list" where
  \<comment> \<open>the identity and the result that \<^verbatim>\<open>Parse\<close> computes for each test case\<close>
  "casePairs testCases =
     map (\<lambda>tc. (buildTestID (tc_Classname tc) (tc_Name tc),
                caseResult (buildTestID (tc_Classname tc) (tc_Name tc)) tc)) testCases"

definition observed :: "(string \<Rightarrow> XMLFile) \<Rightarrow> string list \<Rightarrow> (string \<times> TestResult) list" where
  \<comment> \<open>the test cases of the files, in the order in which \<^verbatim>\<open>Parse\<close> reads them\<close>
  "observed disk xmlFiles =
     concat (map (\<lambda>xmlFile. case parseXMLFile disk xmlFile of
                               Inr testCases \<Rightarrow> casePairs testCases
                             | Inl err \<Rightarrow> []) xmlFiles)"

subsection \<open>Concrete inputs\<close>

definition scenarioA :: "RunResult list" where
  \<comment> \<open>three runs; the test passes in runs 1 and 3 and fails in run 2\<close>
  "scenarioA =
     [ \<lparr> RunIndex = 1,
         Tests = [\<lparr> TestID = ''a.js::t'', Outcome = OutcomePass, Duration = 100000000,
                    FailureMessage = [] \<rparr>],
         Error = [] \<rparr>,
       \<lparr> RunIndex = 2,
         Tests = [\<lparr> TestID = ''a.js::t'', Outcome = OutcomeFail, Duration = 100000000,
                    FailureMessage = ''Request timed out waiting for response'' \<rparr>],
         Error = [] \<rparr>,
       \<lparr> RunIndex = 3,
         Tests = [\<lparr> TestID = ''a.js::t'', Outcome = OutcomePass, Duration = 100000000,
                    FailureMessage = [] \<rparr>],
         Error = [] \<rparr> ]"

definition scenarioA_aggregate :: AggregatedTest where
  "scenarioA_aggregate =
     \<lparr> at_TestID = ''a.js::t'', PassCount = 2, FailCount = 1, SkipCount = 0, TotalRuns = 3,
       AvgDuration = 100000000, Classification = ClassificationFlaky,
       FlakeRate = 6004799503160661 / 18014398509481984,
       WastedTime = 100000000,
       at_FailureEvidence =
         [\<lparr> ev_RunIndex = 2, Excerpt = ''Request timed out waiting for response'',
            Signature = SignatureTimeout \<rparr>] \<rparr>"

definition dupRuns :: "RunResult list" where
  \<comment> \<open>one run whose test list names the same identity twice\<close>
  "dupRuns =
     [ \<lparr> RunIndex = 1,
         Tests = [\<lparr> TestID = ''a.test.js::t'', Outcome = OutcomeFail, Duration = 5000000,
                    FailureMessage = ''boom'' \<rparr>,
                  \<lparr> TestID = ''a.test.js::t'', Outcome = OutcomePass, Duration = 5000000,
                    FailureMessage = [] \<rparr>],
         Error = [] \<rparr> ]"

definition dupRuns_aggregate :: AggregatedTest where
  "dupRuns_aggregate =
     \<lparr> at_TestID = ''a.test.js::t'', PassCount = 1, FailCount = 1, SkipCount = 0,
       TotalRuns = 2, AvgDuration = 5000000, Classification = ClassificationFlaky,
       FlakeRate = 1 / 2, WastedTime = 2500000,
       at_FailureEvidence =
         [\<lparr> ev_RunIndex = 1, Excerpt = ''boom'', Signature = SignatureUnknown \<rparr>] \<rparr>"

definition scenarioD :: "RunResult list" where
  \<comment> \<open>three tests that all pass: equal wasted time, flake rate and fail count\<close>
  "scenarioD =
     [ \<lparr> RunIndex = 1,
         Tests = [\<lparr> TestID = ''z::t'', Outcome = OutcomePass, Duration = 100000000,
                    FailureMessage = [] \<rparr>,
                  \<lparr> TestID = ''a::t'', Outcome = OutcomePass, Duration = 100000000,
                    FailureMessage = [] \<rparr>,
                  \<lparr> TestID = ''m::t'', Outcome = OutcomePass, Duration = 100000000,
                    FailureMessage = [] \<rparr>],
         Error = [] \<rparr> ]"

definition stableAggregate :: "string \<Rightarrow> AggregatedTest" where
  \<comment> \<open>the aggregate of a test of \<open>scenarioD\<close>\<close>
  "stableAggregate tid =
     \<lparr> at_TestID = tid, PassCount = 1, FailCount = 0, SkipCount = 0, TotalRuns = 1,
       AvgDuration = 100000000, Classification = ClassificationStable, FlakeRate = 0,
       WastedTime = 0, at_FailureEvidence = [] \<rparr>"

definition quietWorld :: World where
  \<comment> \<open>no timeout, no cancellation, every file-system call succeeds\<close>
  "quietWorld =
     \<lparr> elapsed = (\<lambda>i. 0), cancelled = (\<lambda>i. False), removeAll = (\<lambda>p. None),
       mkdirAll = (\<lambda>p. None), createFile = (\<lambda>p. None), notExist = (\<lambda>p. False),
       readDirError = (\<lambda>p. None) \<rparr>"

definition emptyJestDisk :: "string \<Rightarrow> JestFile" where
  \<comment> \<open>every artifact is a Jest report without tests\<close>
  "emptyJestDisk p = JestDecoded \<lparr> jo_TestResults = [] \<rparr>"

definition sessionConfig :: "int \<Rightarrow> Duration \<Rightarrow> int \<Rightarrow> Config" where
  \<comment> \<open>\<^verbatim>\<open>flakehunt --runs n --timeout t --keep-runs k -- npx jest\<close>\<close>
  "sessionConfig n t k =
     \<lparr> Runs = n, Timeout = t, OutDir = ''.flakehunt'', KeepRuns = k, Tool = ''jest'',
       Command = [''npx'', ''jest''], Adapter = Some (jestAdapter emptyJestDisk) \<rparr>"

definition timeoutWorld :: World where
  \<comment> \<open>every run takes 15 seconds\<close>
  "timeoutWorld = quietWorld \<lparr> elapsed := (\<lambda>i. word_of_nat (i - 1) * 15000000000) \<rparr>"

definition mkdirFailWorld :: World where
  \<comment> \<open>the directory of run 2 cannot be created\<close>
  "mkdirFailWorld =
     quietWorld \<lparr> mkdirAll := (\<lambda>p. if p = ''.flakehunt/latest/runs/002''
                                   then Some ''permission denied'' else None) \<rparr>"

definition noArtifactWorld :: World where
  \<comment> \<open>no run leaves its artifact behind\<close>
  "noArtifactWorld = quietWorld \<lparr> notExist := (\<lambda>p. True) \<rparr>"

definition dupJestOutput :: JestOutput where
  \<comment> \<open>a Jest report in which one test file holds two results with the same full name:
      the first failed, the second passed\<close>
  "dupJestOutput =
     \<lparr> jo_TestResults =
         [\<lparr> jt_Name = ''a.test.js'', jt_Status = ''failed'',
            jt_AssertionResults =
              [\<lparr> ar_FullName = ''t'', ar_Status = ''failed'', ar_Title = ''t'',
                 ar_Duration = 5, ar_FailureMessages = [''boom''] \<rparr>,
               \<lparr> ar_FullName = ''t'', ar_Status = ''passed'', ar_Title = ''t'',
                 ar_Duration = 5, ar_FailureMessages = [] \<rparr>] \<rparr>] \<rparr>"

definition retryDisk :: "string \<Rightarrow> XMLFile" where
  \<comment> \<open>two JUnit fragments of one run: the test fails in the first and passes in the
      second\<close>
  "retryDisk p =
     (if p = ''run/001.xml''
      then RootTestSuites
             [\<lparr> ts_Name = ''a.cy.js'',
                ts_TestCases =
                  [\<lparr> tc_Name = ''t'', tc_Classname = ''a.cy.js'', tc_Time = 1,
                     tc_Failure = Some \<lparr> jf_Message = ''boom'', jf_Type = ''Error'',
                                         jf_Content = ''Failed'' \<rparr>,
                     tc_Error = None, tc_Skipped = None \<rparr>] \<rparr>]
      else if p = ''run/002.xml''
      then RootTestSuites
             [\<lparr> ts_Name = ''a.cy.js'',
                ts_TestCases =
                  [\<lparr> tc_Name = ''t'', tc_Classname = ''a.cy.js'', tc_Time = 3 / 2,
                     tc_Failure = None, tc_Error = None, tc_Skipped = None \<rparr>] \<rparr>]
      else NotJUnit)"

section \<open>Properties of aggregation\<close>

lemma set_insert_by: "set (insert_by lt x xs) = insert x (set xs)"
  by (induction xs) auto

lemma mset_insert_by: "mset (insert_by lt x xs) = add_mset x (mset xs)"
  by (induction xs) auto

lemma sort_Slice_foldr: "sort_Slice lt xs = foldr (insert_by lt) (rev xs) []"
  by (simp add: sort_Slice_def foldl_conv_foldr)

lemma mset_sort_Slice: "mset (sort_Slice lt xs) = mset xs"
proof -
  have "mset (foldr (insert_by lt) ys []) = mset ys" for ys
    by (induction ys) (simp_all add: mset_insert_by)
  then show ?thesis
    by (simp add: sort_Slice_foldr)
qed

lemma set_sort_Slice: "set (sort_Slice lt xs) = set xs"
  using mset_sort_Slice [of lt xs] by (rule mset_eq_setD)

lemma length_sort_Slice: "length (sort_Slice lt xs) = length xs"
  using mset_sort_Slice [of lt xs] by (metis size_mset)

lemma map_of_store: "map_of (store k v aggs) = (map_of aggs)(k \<mapsto> v)"
  by (induction aggs) (auto simp: fun_eq_iff)

lemma keys_store:
  "map fst (store k v aggs) = (if k \<in> fst ` set aggs then map fst aggs else map fst aggs @ [k])"
  by (induction aggs) (force+)

lemma distinct_store: "distinct (map fst aggs) \<Longrightarrow> distinct (map fst (store k v aggs))"
  by (simp add: keys_store)

lemma accumulate_occurrences:
  "accumulate runs = foldl (\<lambda>aggs (i, t). processTest i aggs t) [] (occurrences runs)"
proof -
  have inner: "foldl (processTest i) aggs ts
      = foldl (\<lambda>aggs (i, t). processTest i aggs t) aggs (map (Pair i) ts)" for i aggs ts
    by (induction ts arbitrary: aggs) simp_all
  have "foldl processRun aggs runs
      = foldl (\<lambda>aggs (i, t). processTest i aggs t) aggs (occurrences runs)" for aggs
    by (induction runs arbitrary: aggs) (simp_all add: occurrences_def processRun_def inner)
  then show ?thesis by (simp add: accumulate_def)
qed

lemma replay_snoc: "replay agg (occs @ [(i, t)]) = recordOutcome i t (replay agg occs)"
  by (simp add: replay_def)

lemma accumulate_fold_inv:
  "distinct (map fst (foldl (\<lambda>aggs (i, t). processTest i aggs t) [] occs)) \<and>
   map_of (foldl (\<lambda>aggs (i, t). processTest i aggs t) [] occs) tid
     = (if tid \<in> (TestID \<circ> snd) ` set occs
        then Some (replay (newAggregator tid) (filter (\<lambda>(i, t). TestID t = tid) occs))
        else None)"
proof (induction occs arbitrary: tid rule: rev_induct)
  case Nil
  then show ?case by simp
next
  case (snoc x occs)
  obtain i t where x: "x = (i, t)" by (cases x)
  let ?aggs = "foldl (\<lambda>aggs (i, t). processTest i aggs t) [] occs"
  have d: "distinct (map fst ?aggs)" using snoc.IH by blast
  have m: "map_of ?aggs k = (if k \<in> (TestID \<circ> snd) ` set occs
        then Some (replay (newAggregator k) (filter (\<lambda>(i, t). TestID t = k) occs))
        else None)" for k using snoc.IH by blast
  have step: "foldl (\<lambda>aggs (i, t). processTest i aggs t) [] (occs @ [x]) = processTest i ?aggs t"
    by (simp add: x)
  have fresh: "filter (\<lambda>(i, u). TestID u = k) occs = []"
    if "k \<notin> (TestID \<circ> snd) ` set occs" for k
    using that by (force simp: filter_empty_conv)
  show ?case
  proof (cases "tid = TestID t")
    case True
    then show ?thesis
      unfolding step
      by (auto simp: processTest_def Let_def map_of_store distinct_store d m x replay_snoc
          fresh [unfolded comp_def] replay_def split: option.splits)
  next
    case False
    then show ?thesis
      unfolding step
      by (auto simp: processTest_def Let_def map_of_store distinct_store d m x)
  qed
qed

lemma accumulate_entry:
  assumes "(tid, agg) \<in> set (accumulate runs)"
  shows "agg = replay (newAggregator tid) (occurrencesOf tid runs)"
    and "tid \<in> (TestID \<circ> snd) ` set (occurrences runs)"
proof -
  have d: "distinct (map fst (accumulate runs))"
    using accumulate_fold_inv [of "occurrences runs"] by (simp add: accumulate_occurrences)
  then have s: "map_of (accumulate runs) tid = Some agg"
    using assms by simp
  have m: "map_of (accumulate runs) tid =
      (if tid \<in> (TestID \<circ> snd) ` set (occurrences runs)
        then Some (replay (newAggregator tid) (occurrencesOf tid runs))
        else None)"
    using accumulate_fold_inv [of "occurrences runs" tid]
    by (simp add: accumulate_occurrences occurrencesOf_def)
  from m s have *: "(if tid \<in> (TestID \<circ> snd) ` set (occurrences runs)
        then Some (replay (newAggregator tid) (occurrencesOf tid runs))
        else None) = Some agg"
    by simp
  show "agg = replay (newAggregator tid) (occurrencesOf tid runs)"
    using * by (simp split: if_splits)
  show "tid \<in> (TestID \<circ> snd) ` set (occurrences runs)"
    using * by (simp split: if_splits)
qed

lemma accumulate_keys:
  "fst ` set (accumulate runs) = (TestID \<circ> snd) ` set (occurrences runs)"
proof -
  have "dom (map_of (accumulate runs)) = (TestID \<circ> snd) ` set (occurrences runs)"
    using accumulate_fold_inv [of "occurrences runs"]
    by (auto simp: accumulate_occurrences dom_def split: if_splits)
  then show ?thesis by (simp add: dom_map_of_conv_image_fst)
qed

lemma distinct_accumulate: "distinct (map fst (accumulate runs))"
  using accumulate_fold_inv [of "occurrences runs"] by (simp add: accumulate_occurrences)

lemma countOutcome_Nil [simp]: "countOutcome oc [] = 0"
  by (simp add: countOutcome_def)

lemma countOutcome_Cons [simp]:
  "countOutcome oc ((i, t) # occs) = (if Outcome t = oc then 1 else 0) + countOutcome oc occs"
  by (simp add: countOutcome_def)

lemma countOutcome_nonneg: "0 \<le> countOutcome oc occs"
  by (simp add: countOutcome_def)

lemma countOutcome_total:
  "countOutcome OutcomePass occs + countOutcome OutcomeFail occs + countOutcome OutcomeSkip occs
     = int (length occs)"
proof (induction occs)
  case Nil
  then show ?case by simp
next
  case (Cons x occs)
  obtain i t where "x = (i, t)" by (cases x)
  with Cons show ?case by (cases "Outcome t") simp_all
qed

lemma replay_Cons: "replay agg ((i, t) # occs) = replay (recordOutcome i t agg) occs"
  by (simp add: replay_def)

lemma replay_Nil: "replay agg [] = agg"
  by (simp add: replay_def)

lemma replay_counts:
  "testID (replay agg occs) = testID agg \<and>
   passCount (replay agg occs) = passCount agg + countOutcome OutcomePass occs \<and>
   failCount (replay agg occs) = failCount agg + countOutcome OutcomeFail occs \<and>
   skipCount (replay agg occs) = skipCount agg + countOutcome OutcomeSkip occs \<and>
   durationCount (replay agg occs)
     = durationCount agg + countOutcome OutcomePass occs + countOutcome OutcomeFail occs \<and>
   int (length (failureEvidence (replay agg occs)))
     = int (length (failureEvidence agg)) + countOutcome OutcomeFail occs"
proof (induction occs arbitrary: agg)
  case Nil
  then show ?case by (simp add: replay_Nil)
next
  case (Cons x occs)
  obtain i t where x: "x = (i, t)" by (cases x)
  show ?case
    using Cons.IH [of "recordOutcome i t agg"]
    by (cases "Outcome t") (simp_all add: x replay_Cons recordOutcome_def)
qed

lemma accumulate_entry_counts:
  assumes "(tid, agg) \<in> set (accumulate runs)"
  shows "testID agg = tid"
    and "passCount agg = countOutcome OutcomePass (occurrencesOf tid runs)"
    and "failCount agg = countOutcome OutcomeFail (occurrencesOf tid runs)"
    and "skipCount agg = countOutcome OutcomeSkip (occurrencesOf tid runs)"
    and "durationCount agg = passCount agg + failCount agg"
    and "int (length (failureEvidence agg)) = failCount agg"
  using replay_counts [of "newAggregator tid" "occurrencesOf tid runs"]
    accumulate_entry(1) [OF assms]
  by (simp_all add: newAggregator_def)

lemma Aggregate_elem:
  assumes "t \<in> set (Aggregate runs)"
  obtains tid agg where "(tid, agg) \<in> set (accumulate runs)"
    and "t = buildAggregatedTest agg (int (length runs))"
  using assms
  by (auto simp: Aggregate_def sortAggregatedTests_def set_sort_Slice builtTests_def
      split: if_splits)

lemma classify_counts:
  assumes "0 \<le> p" "0 \<le> f"
  shows "(classify p f (p + f) = ClassificationFlaky \<longleftrightarrow> 1 \<le> p \<and> 1 \<le> f)"
    and "(classify p f (p + f) = ClassificationDeterministicFail \<longleftrightarrow> f = p + f \<and> 0 < p + f)"
    and "(classify p f (p + f) = ClassificationStable
           \<longleftrightarrow> \<not> (1 \<le> p \<and> 1 \<le> f) \<and> \<not> (f = p + f \<and> 0 < p + f))"
  using assms by (auto simp: classify_def)

subsection \<open>Classification\<close>

text \<open>
  Claim C1. Every test that \<^verbatim>\<open>Aggregate\<close> returns carries the classification computed by
  \<^verbatim>\<open>classify\<close> from its own counts, where the total is the number of passes plus the
  number of failures. It is Flaky exactly when there is at least one pass and at least
  one failure, DeterministicFail exactly when the failures are all of a positive number
  of non-skip runs, and Stable in every other case, in particular when all runs were
  skipped. The three cases exclude each other and cover everything.
\<close>

theorem C1_classification:
  "\<forall>t \<in> set (Aggregate runs).
     TotalRuns t = PassCount t + FailCount t \<and>
     0 \<le> PassCount t \<and> 0 \<le> FailCount t \<and>
     Classification t = classify (PassCount t) (FailCount t) (TotalRuns t) \<and>
     (Classification t = ClassificationFlaky \<longleftrightarrow> 1 \<le> PassCount t \<and> 1 \<le> FailCount t) \<and>
     (Classification t = ClassificationDeterministicFail
        \<longleftrightarrow> FailCount t = TotalRuns t \<and> 0 < TotalRuns t) \<and>
     (Classification t = ClassificationStable
        \<longleftrightarrow> \<not> (1 \<le> PassCount t \<and> 1 \<le> FailCount t)
            \<and> \<not> (FailCount t = TotalRuns t \<and> 0 < TotalRuns t)) \<and>
     (TotalRuns t = 0 \<longrightarrow> Classification t = ClassificationStable)"
proof
  fix t
  assume "t \<in> set (Aggregate runs)"
  then obtain tid agg where mem: "(tid, agg) \<in> set (accumulate runs)"
    and t: "t = buildAggregatedTest agg (int (length runs))"
    by (rule Aggregate_elem)
  have p: "0 \<le> passCount agg" and f: "0 \<le> failCount agg"
    using accumulate_entry_counts(2,3) [OF mem] by (simp_all add: countOutcome_nonneg)
  have fields: "PassCount t = passCount agg" "FailCount t = failCount agg"
    "TotalRuns t = passCount agg + failCount agg"
    "Classification t = classify (passCount agg) (failCount agg) (passCount agg + failCount agg)"
    by (simp_all add: t buildAggregatedTest_def Let_def)
  show "TotalRuns t = PassCount t + FailCount t \<and>
     0 \<le> PassCount t \<and> 0 \<le> FailCount t \<and>
     Classification t = classify (PassCount t) (FailCount t) (TotalRuns t) \<and>
     (Classification t = ClassificationFlaky \<longleftrightarrow> 1 \<le> PassCount t \<and> 1 \<le> FailCount t) \<and>
     (Classification t = ClassificationDeterministicFail
        \<longleftrightarrow> FailCount t = TotalRuns t \<and> 0 < TotalRuns t) \<and>
     (Classification t = ClassificationStable
        \<longleftrightarrow> \<not> (1 \<le> PassCount t \<and> 1 \<le> FailCount t)
            \<and> \<not> (FailCount t = TotalRuns t \<and> 0 < TotalRuns t)) \<and>
     (TotalRuns t = 0 \<longrightarrow> Classification t = ClassificationStable)"
    unfolding fields using classify_counts [OF p f] p f
    by (simp add: classify_def)
qed

subsection \<open>Wasted time\<close>

text \<open>
  Claim C2. For every test that \<^verbatim>\<open>Aggregate\<close> returns, the flake rate is the number of
  failures divided by passes plus failures, and 0 when that sum is 0. The wasted time of
  a Flaky test is the \<^verbatim>\<open>float64\<close> product of the flake rate, the average duration and the
  number of run records passed to \<^verbatim>\<open>Aggregate\<close>, converted to a \<^verbatim>\<open>time.Duration\<close>; the wasted
  time of every Stable and every DeterministicFail test is 0.
\<close>

theorem C2_wastedTime:
  "\<forall>t \<in> set (Aggregate runs).
     FlakeRate t =
       (if PassCount t + FailCount t = 0 then 0
        else fdiv (float64_of_int (FailCount t)) (float64_of_int (PassCount t + FailCount t))) \<and>
     WastedTime t =
       (if Classification t = ClassificationFlaky
        then Duration_of_float
               (fmul (fmul (FlakeRate t) (float64_of_int (sint (AvgDuration t))))
                     (float64_of_int (int (length runs))))
        else 0) \<and>
     (Classification t = ClassificationStable \<longrightarrow> WastedTime t = 0) \<and>
     (Classification t = ClassificationDeterministicFail \<longrightarrow> WastedTime t = 0)"
proof
  fix t
  assume "t \<in> set (Aggregate runs)"
  then obtain tid agg where mem: "(tid, agg) \<in> set (accumulate runs)"
    and t: "t = buildAggregatedTest agg (int (length runs))"
    by (rule Aggregate_elem)
  have p: "0 \<le> passCount agg" and f: "0 \<le> failCount agg"
    using accumulate_entry_counts(2,3) [OF mem] by (simp_all add: countOutcome_nonneg)
  have flaky: "0 < passCount agg + failCount agg"
    if "classify (passCount agg) (failCount agg) (passCount agg + failCount agg)
          = ClassificationFlaky"
    using that p f by (simp add: classify_def split: if_splits)
  show "FlakeRate t =
       (if PassCount t + FailCount t = 0 then 0
        else fdiv (float64_of_int (FailCount t)) (float64_of_int (PassCount t + FailCount t))) \<and>
     WastedTime t =
       (if Classification t = ClassificationFlaky
        then Duration_of_float
               (fmul (fmul (FlakeRate t) (float64_of_int (sint (AvgDuration t))))
                     (float64_of_int (int (length runs))))
        else 0) \<and>
     (Classification t = ClassificationStable \<longrightarrow> WastedTime t = 0) \<and>
     (Classification t = ClassificationDeterministicFail \<longrightarrow> WastedTime t = 0)"
    using p f flaky by (auto simp: t buildAggregatedTest_def Let_def)
qed

lemma scenarioA_value: "Aggregate scenarioA = [scenarioA_aggregate]"
  by code_simp

theorem C2_wastedTime_witness:
  "scenarioA_aggregate \<in> set (Aggregate scenarioA) \<and>
   Classification scenarioA_aggregate = ClassificationFlaky \<and>
   FlakeRate scenarioA_aggregate = fdiv (float64_of_int 1) (float64_of_int (2 + 1)) \<and>
   WastedTime scenarioA_aggregate =
     Duration_of_float
       (fmul (fmul (FlakeRate scenarioA_aggregate) (float64_of_int 100000000))
             (float64_of_int 3))"
proof -
  have mem: "scenarioA_aggregate \<in> set (Aggregate scenarioA)"
    by (simp add: scenarioA_value)
  have len: "int (length scenarioA) = 3"
    by (simp add: scenarioA_def)
  from C2_wastedTime [of scenarioA] mem
  have "FlakeRate scenarioA_aggregate =
       (if PassCount scenarioA_aggregate + FailCount scenarioA_aggregate = 0 then 0
        else fdiv (float64_of_int (FailCount scenarioA_aggregate))
               (float64_of_int (PassCount scenarioA_aggregate + FailCount scenarioA_aggregate))) \<and>
     WastedTime scenarioA_aggregate =
       (if Classification scenarioA_aggregate = ClassificationFlaky
        then Duration_of_float
               (fmul (fmul (FlakeRate scenarioA_aggregate)
                        (float64_of_int (sint (AvgDuration scenarioA_aggregate))))
                     (float64_of_int (int (length scenarioA))))
        else 0)"
    by blast
  then show ?thesis
    using mem unfolding len by (simp add: scenarioA_aggregate_def)
qed

theorem C1_classification_witness:
  "scenarioA_aggregate \<in> set (Aggregate scenarioA) \<and>
   Classification scenarioA_aggregate = ClassificationFlaky \<and>
   1 \<le> PassCount scenarioA_aggregate \<and> 1 \<le> FailCount scenarioA_aggregate"
proof -
  have mem: "scenarioA_aggregate \<in> set (Aggregate scenarioA)"
    by (simp add: scenarioA_value)
  from C1_classification [of scenarioA] mem
  have "Classification scenarioA_aggregate = ClassificationFlaky
          \<longleftrightarrow> 1 \<le> PassCount scenarioA_aggregate \<and> 1 \<le> FailCount scenarioA_aggregate"
    by blast
  then show ?thesis
    using mem by (simp add: scenarioA_aggregate_def)
qed

subsection \<open>Identities of the aggregated tests\<close>

lemma map_fst_builtTests: "map at_TestID (builtTests runs) = map fst (accumulate runs)"
proof -
  have "at_TestID (buildAggregatedTest agg n) = tid" if "(tid, agg) \<in> set (accumulate runs)"
    for tid agg n
    using accumulate_entry_counts(1) [OF that] by (simp add: buildAggregatedTest_def Let_def)
  then show ?thesis
    by (auto simp: builtTests_def)
qed

lemma distinct_map_sort_Slice:
  "distinct (map f (sort_Slice lt xs)) \<longleftrightarrow> distinct (map f xs)"
proof -
  have "mset (map f (sort_Slice lt xs)) = mset (map f xs)"
    by (simp add: mset_sort_Slice)
  then show ?thesis
    by (rule mset_eq_imp_distinct_iff)
qed

lemma Aggregate_ids_distinct: "distinct (map at_TestID (Aggregate runs))"
  by (simp add: Aggregate_def sortAggregatedTests_def distinct_map_sort_Slice
      map_fst_builtTests distinct_accumulate)

lemma set_occurrences_ids:
  "(TestID \<circ> snd) ` set (occurrences runs) = (\<Union>run \<in> set runs. TestID ` set (Tests run))"
  by (auto simp: occurrences_def image_iff) force+

lemma Aggregate_ids:
  "at_TestID ` set (Aggregate runs) = (\<Union>run \<in> set runs. TestID ` set (Tests run))"
proof (cases "runs = []")
  case True
  then show ?thesis by (simp add: Aggregate_def)
next
  case False
  have "at_TestID ` set (Aggregate runs) = set (map at_TestID (builtTests runs))"
    using False by (simp add: Aggregate_def sortAggregatedTests_def set_sort_Slice)
  also have "\<dots> = fst ` set (accumulate runs)"
    by (simp add: map_fst_builtTests)
  finally show ?thesis
    unfolding accumulate_keys set_occurrences_ids .
qed

lemma count_key_distinct:
  "distinct (map f xs) \<Longrightarrow> length (filter (\<lambda>x. f x = k) xs) = (if k \<in> f ` set xs then 1 else 0)"
  by (induction xs) (auto simp: filter_empty_conv)

lemma occurrencesOf_distinct_runs:
  assumes "\<forall>run \<in> set runs. distinct (map TestID (Tests run))"
  shows "length (occurrencesOf tid runs) = runsContaining tid runs"
  using assms
proof (induction runs)
  case Nil
  then show ?case by (simp add: occurrencesOf_def occurrences_def runsContaining_def)
next
  case (Cons run runs)
  have "length (filter (\<lambda>(i, t). TestID t = tid) (map (Pair (RunIndex run)) (Tests run)))
      = length (filter (\<lambda>t. TestID t = tid) (Tests run))"
    by (simp add: filter_map comp_def)
  also have "\<dots> = (if tid \<in> TestID ` set (Tests run) then 1 else 0)"
    using Cons.prems by (simp add: count_key_distinct)
  finally have head: "length (filter (\<lambda>(i, t). TestID t = tid) (map (Pair (RunIndex run)) (Tests run)))
      = (if tid \<in> TestID ` set (Tests run) then 1 else 0)" .
  have tail: "length (occurrencesOf tid runs) = runsContaining tid runs"
    using Cons by simp
  show ?case
    using head tail
    by (simp add: occurrencesOf_def occurrences_def runsContaining_def)
qed

subsection \<open>Counts\<close>

text \<open>
  Claim C5, as amended. \<^verbatim>\<open>Aggregate\<close> returns exactly one test per identity that appears in
  some run, and for each of them the sum of the pass, fail and skip counts is the number
  of test entries with that identity over all runs. When no run lists an identity more
  than once, this is the number of runs in which the identity appears.
\<close>

theorem C5_counts:
  "distinct (map at_TestID (Aggregate runs)) \<and>
   at_TestID ` set (Aggregate runs) = (\<Union>run \<in> set runs. TestID ` set (Tests run)) \<and>
   (\<forall>t \<in> set (Aggregate runs).
      PassCount t + FailCount t + SkipCount t = int (length (occurrencesOf (at_TestID t) runs)) \<and>
      ((\<forall>run \<in> set runs. distinct (map TestID (Tests run))) \<longrightarrow>
         PassCount t + FailCount t + SkipCount t = int (runsContaining (at_TestID t) runs)))"
proof (intro conjI ballI)
  show "distinct (map at_TestID (Aggregate runs))"
    by (rule Aggregate_ids_distinct)
  show "at_TestID ` set (Aggregate runs) = (\<Union>run \<in> set runs. TestID ` set (Tests run))"
    by (rule Aggregate_ids)
next
  fix t
  assume "t \<in> set (Aggregate runs)"
  then obtain tid agg where mem: "(tid, agg) \<in> set (accumulate runs)"
    and t: "t = buildAggregatedTest agg (int (length runs))"
    by (rule Aggregate_elem)
  have fields: "PassCount t = passCount agg" "FailCount t = failCount agg"
    "SkipCount t = skipCount agg" "at_TestID t = tid"
    using accumulate_entry_counts(1) [OF mem] by (simp_all add: t buildAggregatedTest_def Let_def)
  show total: "PassCount t + FailCount t + SkipCount t
      = int (length (occurrencesOf (at_TestID t) runs))"
    unfolding fields accumulate_entry_counts(2,3,4) [OF mem]
    by (rule countOutcome_total)
  show "(\<forall>run \<in> set runs. distinct (map TestID (Tests run))) \<longrightarrow>
         PassCount t + FailCount t + SkipCount t = int (runsContaining (at_TestID t) runs)"
    using total occurrencesOf_distinct_runs [of runs "at_TestID t"] by simp
qed

text \<open>
  A run that lists an identity twice is counted twice: the counts of the identity add up
  to 2 although it appears in one run only.
\<close>

lemma dupRuns_value: "Aggregate dupRuns = [dupRuns_aggregate]"
  by code_simp

theorem C5_counts_counterexample:
  "Aggregate dupRuns = [dupRuns_aggregate] \<and>
   PassCount dupRuns_aggregate + FailCount dupRuns_aggregate + SkipCount dupRuns_aggregate = 2 \<and>
   runsContaining ''a.test.js::t'' dupRuns = 1"
  using dupRuns_value by (simp add: dupRuns_aggregate_def runsContaining_def dupRuns_def)

theorem C5_counts_witness:
  "scenarioA_aggregate \<in> set (Aggregate scenarioA) \<and>
   map (\<lambda>run. distinct (map TestID (Tests run))) scenarioA = [True, True, True] \<and>
   PassCount scenarioA_aggregate + FailCount scenarioA_aggregate + SkipCount scenarioA_aggregate
     = int (runsContaining ''a.js::t'' scenarioA) \<and>
   runsContaining ''a.js::t'' scenarioA = 3"
proof -
  have mem: "scenarioA_aggregate \<in> set (Aggregate scenarioA)"
    by (simp add: scenarioA_value)
  have d: "\<forall>run \<in> set scenarioA. distinct (map TestID (Tests run))"
    by (simp add: scenarioA_def)
  have d': "map (\<lambda>run. distinct (map TestID (Tests run))) scenarioA = [True, True, True]"
    by (simp add: scenarioA_def)
  have n: "runsContaining ''a.js::t'' scenarioA = 3"
    by (simp add: runsContaining_def scenarioA_def)
  from C5_counts [of scenarioA] mem d
  have "PassCount scenarioA_aggregate + FailCount scenarioA_aggregate
          + SkipCount scenarioA_aggregate
        = int (runsContaining (at_TestID scenarioA_aggregate) scenarioA)"
    by blast
  then show ?thesis
    using mem d' n by (simp add: scenarioA_aggregate_def)
qed

lemma sum_increment: "sum_list (map snd (increment k al)) = sum_list (map snd al) + 1"
  by (induction al) auto

lemma keys_increment:
  "map fst (increment k al) = (if k \<in> fst ` set al then map fst al else map fst al @ [k])"
  by (induction al) (force+)

lemma summary_inner:
  "sum_list (map snd (foldl (\<lambda>summary ev. increment (f ev) summary) s0 evs))
     = sum_list (map snd s0) + int (length evs) \<and>
   (distinct (map fst s0) \<longrightarrow>
      distinct (map fst (foldl (\<lambda>summary ev. increment (f ev) summary) s0 evs)))"
  by (induction evs arbitrary: s0) (simp_all add: sum_increment keys_increment)

lemma summary_outer:
  "sum_list (map snd
      (foldl (\<lambda>summary t. foldl (\<lambda>summary ev. increment (f ev) summary) summary (g t)) s0 ts))
     = sum_list (map snd s0) + (\<Sum>t\<leftarrow>ts. int (length (g t))) \<and>
   (distinct (map fst s0) \<longrightarrow> distinct (map fst
      (foldl (\<lambda>summary t. foldl (\<lambda>summary ev. increment (f ev) summary) summary (g t)) s0 ts)))"
proof (induction ts arbitrary: s0)
  case Nil
  then show ?case by simp
next
  case (Cons t ts)
  show ?case
    using Cons.IH [of "foldl (\<lambda>summary ev. increment (f ev) summary) s0 (g t)"]
      summary_inner [of f s0 "g t"]
    by simp
qed

lemma evidence_count:
  assumes "t \<in> set (Aggregate runs)"
  shows "int (length (at_FailureEvidence t)) = FailCount t"
proof -
  from assms obtain tid agg where mem: "(tid, agg) \<in> set (accumulate runs)"
    and t: "t = buildAggregatedTest agg (int (length runs))"
    by (rule Aggregate_elem)
  show ?thesis
    using accumulate_entry_counts(6) [OF mem]
    by (simp add: t buildAggregatedTest_def Let_def length_sort_Slice)
qed

subsection \<open>Signature summary\<close>

text \<open>
  Claim C10. For the list that \<^verbatim>\<open>Aggregate\<close> returns, the counts of \<^verbatim>\<open>SignatureSummary\<close>
  add up to the number of failure evidence entries of all tests, and that number is the
  sum of the fail counts of all tests. The summary has one entry per key.
\<close>

theorem C10_signature_summary:
  "sum_list (map snd (SignatureSummary (Aggregate runs)))
     = (\<Sum>t\<leftarrow>Aggregate runs. int (length (at_FailureEvidence t))) \<and>
   (\<Sum>t\<leftarrow>Aggregate runs. int (length (at_FailureEvidence t)))
     = (\<Sum>t\<leftarrow>Aggregate runs. FailCount t) \<and>
   distinct (map fst (SignatureSummary (Aggregate runs)))"
proof -
  have "map (\<lambda>t. int (length (at_FailureEvidence t))) (Aggregate runs)
      = map FailCount (Aggregate runs)"
    by (rule map_cong) (simp_all add: evidence_count)
  then have eq: "(\<Sum>t\<leftarrow>Aggregate runs. int (length (at_FailureEvidence t)))
      = (\<Sum>t\<leftarrow>Aggregate runs. FailCount t)"
    by (rule arg_cong)
  have summary: "sum_list (map snd (SignatureSummary (Aggregate runs)))
       = (\<Sum>t\<leftarrow>Aggregate runs. int (length (at_FailureEvidence t)))"
    "distinct (map fst (SignatureSummary (Aggregate runs)))"
    using summary_outer [of "\<lambda>ev. signatureString (Signature ev)" at_FailureEvidence "[]"
        "Aggregate runs"]
    by (simp_all add: SignatureSummary_def)
  show ?thesis
    using eq summary by blast
qed

theorem C10_signature_summary_witness:
  "SignatureSummary (Aggregate scenarioA) = [(''TIMEOUT'', 1)] \<and>
   sum_list (map snd (SignatureSummary (Aggregate scenarioA))) = 1 \<and>
   (\<Sum>t\<leftarrow>Aggregate scenarioA. FailCount t) = 1"
proof -
  have "SignatureSummary (Aggregate scenarioA) = [(''TIMEOUT'', 1)]"
    unfolding scenarioA_value
    by (simp add: SignatureSummary_def scenarioA_aggregate_def signatureString_def)
  then show ?thesis
    using C10_signature_summary [of scenarioA]
    by (simp add: scenarioA_value scenarioA_aggregate_def)
qed

subsection \<open>The order of the result\<close>

lemma sint_eq_iff: "sint (a :: Duration) = sint b \<longleftrightarrow> a = b"
  by (auto intro: signed_word_eqI)

lemma lessAggregated_key: "lessAggregated a b \<longleftrightarrow> sortKey a < sortKey b"
  using sint_eq_iff [of "WastedTime a" "WastedTime b"]
  by (auto simp: lessAggregated_def sortKey_def less_prod_def)

lemma specBefore_key: "specBefore a b \<longleftrightarrow> sortKey a < sortKey b"
  using sint_eq_iff [of "WastedTime a" "WastedTime b"]
  by (auto simp: specBefore_def sortKey_def less_prod_def)

lemma sorted_insert_by:
  fixes key :: "'a \<Rightarrow> 'k :: linorder"
  assumes "\<And>a b. lt a b \<longleftrightarrow> key a < key b"
  shows "sorted (map key xs) \<Longrightarrow> sorted (map key (insert_by lt x xs))"
  by (induction xs) (auto simp: assms set_insert_by)

lemma sorted_sort_Slice:
  fixes key :: "'a \<Rightarrow> 'k :: linorder"
  assumes "\<And>a b. lt a b \<longleftrightarrow> key a < key b"
  shows "sorted (map key (sort_Slice lt xs))"
proof -
  have "sorted (map key (foldr (insert_by lt) ys []))" for ys
  proof (induction ys)
    case Nil
    then show ?case by simp
  next
    case (Cons y ys)
    then show ?case
      using sorted_insert_by [of lt key "foldr (insert_by lt) ys []" y, OF assms]
      by simp
  qed
  then show ?thesis
    by (simp add: sort_Slice_foldr)
qed

lemma sort_Slice_unique:
  fixes key :: "'a \<Rightarrow> 'k :: linorder"
  assumes compat: "\<And>a b. lt a b \<longleftrightarrow> key a < key b"
    and dist: "distinct (map key xs)"
    and perm: "mset ys = mset xs"
    and ordered: "sorted_wrt (\<lambda>a b. \<not> lt b a) ys"
  shows "ys = sort_Slice lt xs"
proof (rule map_sorted_distinct_set_unique [where f = key])
  have sets: "set ys = set xs" "set (sort_Slice lt xs) = set xs"
    using perm by (auto dest: mset_eq_setD simp: set_sort_Slice)
  show "inj_on key (set ys \<union> set (sort_Slice lt xs))"
    using dist by (simp add: sets distinct_map)
  have "sorted_wrt (\<lambda>a b. key a \<le> key b) ys"
    using ordered by (simp add: compat not_less)
  then show "sorted (map key ys)"
    by (simp add: sorted_wrt_map)
  have "mset (map key ys) = mset (map key xs)"
    using perm by simp
  then have "distinct (map key ys) \<longleftrightarrow> distinct (map key xs)"
    by (rule mset_eq_imp_distinct_iff)
  then show "distinct (map key ys)"
    using dist by blast
  show "sorted (map key (sort_Slice lt xs))"
    by (rule sorted_sort_Slice [OF compat])
  show "distinct (map key (sort_Slice lt xs))"
    using dist by (simp add: distinct_map_sort_Slice)
  show "set ys = set (sort_Slice lt xs)"
    by (simp add: sets)
qed

lemma distinct_keys_builtTests: "distinct (map sortKey (builtTests runs))"
proof -
  have "distinct (map at_TestID (builtTests runs))"
    by (simp add: map_fst_builtTests distinct_accumulate)
  then have d: "distinct (builtTests runs)" and inj: "inj_on at_TestID (set (builtTests runs))"
    by (simp_all add: distinct_map)
  have "inj_on sortKey (set (builtTests runs))"
    by (rule inj_onI) (auto simp: sortKey_def dest: inj_onD [OF inj])
  with d show ?thesis
    by (simp add: distinct_map)
qed

lemma Aggregate_sorted: "Aggregate runs = sort_Slice lessAggregated (builtTests runs)"
  by (simp add: Aggregate_def sortAggregatedTests_def builtTests_def accumulate_def sort_Slice_def)

lemma Aggregate_strictly_sorted: "sorted_wrt specBefore (Aggregate runs)"
proof -
  have "sorted (map sortKey (Aggregate runs))"
    unfolding Aggregate_sorted by (rule sorted_sort_Slice) (rule lessAggregated_key)
  moreover have "distinct (map sortKey (Aggregate runs))"
    unfolding Aggregate_sorted by (simp add: distinct_map_sort_Slice distinct_keys_builtTests)
  ultimately have "sorted_wrt (<) (map sortKey (Aggregate runs))"
    by (simp add: strict_sorted_iff)
  then show ?thesis
    by (simp add: sorted_wrt_map specBefore_key [abs_def])
qed

lemma scenarioD_value:
  "Aggregate scenarioD
     = [stableAggregate ''a::t'', stableAggregate ''m::t'', stableAggregate ''z::t'']"
  by code_simp

text \<open>
  Claim C3. The comparison function of \<^verbatim>\<open>sortAggregatedTests\<close> is the order of the
  specification: wasted time descending, then flake rate descending, then fail count
  descending, then identity ascending. The list that \<^verbatim>\<open>Aggregate\<close> returns is strictly
  ascending in this order, which is transitive and irreflexive and compares any two
  different tests of the result. The result does not depend on the order in which
  the map of aggregators is traversed nor on how \<^verbatim>\<open>sort.Slice\<close> sorts: every
  rearrangement of the unsorted tests that is ordered by the comparison function is the
  list that \<^verbatim>\<open>Aggregate\<close> returns. Three passing tests named z::t, a::t and m::t come out as
  a::t, m::t, z::t.
\<close>

theorem C3_result_order:
  "(\<forall>a b. lessAggregated a b \<longleftrightarrow> specBefore a b) \<and>
   sorted_wrt specBefore (Aggregate runs) \<and>
   (\<forall>a b c. specBefore a b \<and> specBefore b c \<longrightarrow> specBefore a c) \<and>
   (\<forall>a. \<not> specBefore a a) \<and>
   (\<forall>a \<in> set (Aggregate runs). \<forall>b \<in> set (Aggregate runs).
      a \<noteq> b \<longrightarrow> specBefore a b \<or> specBefore b a) \<and>
   (\<forall>ys. mset ys = mset (builtTests runs) \<and> sorted_wrt (\<lambda>a b. \<not> lessAggregated b a) ys
      \<longrightarrow> ys = Aggregate runs) \<and>
   map at_TestID (Aggregate scenarioD) = [''a::t'', ''m::t'', ''z::t'']"
proof (intro conjI allI ballI impI)
  show "lessAggregated a b \<longleftrightarrow> specBefore a b" for a b
    by (simp add: lessAggregated_key specBefore_key)
  show "sorted_wrt specBefore (Aggregate runs)"
    by (rule Aggregate_strictly_sorted)
  show "specBefore a c" if "specBefore a b \<and> specBefore b c" for a b c
    using that by (auto simp: specBefore_key)
  show "\<not> specBefore a a" for a
    by (simp add: specBefore_key)
  show "specBefore a b \<or> specBefore b a"
    if "a \<in> set (Aggregate runs)" "b \<in> set (Aggregate runs)" "a \<noteq> b" for a b
  proof -
    have "inj_on sortKey (set (Aggregate runs))"
      using distinct_keys_builtTests [of runs]
      by (simp add: Aggregate_sorted set_sort_Slice distinct_map)
    then have "sortKey a \<noteq> sortKey b"
      using that by (auto dest: inj_onD)
    then show ?thesis
      by (auto simp: specBefore_key)
  qed
  show "ys = Aggregate runs"
    if "mset ys = mset (builtTests runs) \<and> sorted_wrt (\<lambda>a b. \<not> lessAggregated b a) ys" for ys
    unfolding Aggregate_sorted
    using that
    by (intro sort_Slice_unique [where key = sortKey] lessAggregated_key
        distinct_keys_builtTests) simp_all
  show "map at_TestID (Aggregate scenarioD) = [''a::t'', ''m::t'', ''z::t'']"
    by (simp add: scenarioD_value stableAggregate_def)
qed

theorem C3_result_order_witness:
  "Aggregate scenarioD
     = [stableAggregate ''a::t'', stableAggregate ''m::t'', stableAggregate ''z::t''] \<and>
   specBefore (stableAggregate ''a::t'') (stableAggregate ''m::t'') \<and>
   specBefore (stableAggregate ''m::t'') (stableAggregate ''z::t'') \<and>
   specBefore (stableAggregate ''a::t'') (stableAggregate ''z::t'')"
proof -
  have "sorted_wrt specBefore (Aggregate scenarioD)"
    using C3_result_order [of scenarioD] by blast
  then show ?thesis
    by (simp add: scenarioD_value)
qed

subsection \<open>Signature detection\<close>

lemma detectIn_none:
  "(\<forall>sp \<in> set sps. \<forall>p \<in> set (patterns sp). \<not> MatchString p m)
     \<Longrightarrow> detectIn sps m = SignatureUnknown"
  by (induction sps) (auto simp: list_ex_iff)

lemma detectIn_first:
  assumes "i < length sps"
    and "\<exists>p \<in> set (patterns (sps ! i)). MatchString p m"
    and "\<forall>j < i. \<forall>p \<in> set (patterns (sps ! j)). \<not> MatchString p m"
  shows "detectIn sps m = signature (sps ! i)"
  using assms
proof (induction sps arbitrary: i)
  case Nil
  then show ?case by simp
next
  case (Cons sp sps)
  show ?case
  proof (cases i)
    case 0
    then show ?thesis
      using Cons.prems by (auto simp: list_ex_iff)
  next
    case (Suc k)
    have head: "\<not> list_ex (\<lambda>p. MatchString p m) (patterns sp)"
      using Cons.prems(3) [rule_format, of 0] Suc by (auto simp: list_ex_iff)
    have "detectIn sps m = signature (sps ! k)"
    proof (rule Cons.IH)
      show "k < length sps" using Cons.prems(1) Suc by simp
      show "\<exists>p \<in> set (patterns (sps ! k)). MatchString p m"
        using Cons.prems(2) Suc by simp
      show "\<forall>j < k. \<forall>p \<in> set (patterns (sps ! j)). \<not> MatchString p m"
        using Cons.prems(3) Suc by auto
    qed
    then show ?thesis
      using head Suc by simp
  qed
qed

lemma signature_order:
  "map signature signaturePatterns
     = [SignatureTimeout, SignatureSelector, SignatureNetwork, SignatureDOMDetach,
        SignatureAssertion]"
  by (simp add: signaturePatterns_def)

lemma timeout_example:
  "DetectSignature ''expect(response).timeout exceeded'' = SignatureTimeout"
  by code_simp

lemma timeout_example_matches:
  "MatchString (lits ''timeout'') ''expect(response).timeout exceeded'' \<and>
   MatchString ([WordBoundary] @ lits ''expect'' @ [WordBoundary])
     ''expect(response).timeout exceeded''"
  by code_simp

text \<open>
  Claim C4. \<^verbatim>\<open>DetectSignature\<close> is a function from messages to the six signatures. Its
  rules are, in this order, those of Timeout, Selector, Network, DomDetach and
  Assertion; the result is the signature of the first rule that has a matching pattern,
  and Unknown for the empty message and for a message that no pattern matches. The
  message \<^verbatim>\<open>expect(response).timeout exceeded\<close> matches a Timeout pattern and an Assertion
  pattern, and its signature is Timeout.
\<close>

theorem C4_detect_signature:
  "map signature signaturePatterns
     = [SignatureTimeout, SignatureSelector, SignatureNetwork, SignatureDOMDetach,
        SignatureAssertion] \<and>
   DetectSignature [] = SignatureUnknown \<and>
   (\<forall>m. (\<forall>sp \<in> set signaturePatterns. \<forall>p \<in> set (patterns sp). \<not> MatchString p m)
        \<longrightarrow> DetectSignature m = SignatureUnknown) \<and>
   (\<forall>m i. m \<noteq> [] \<and> i < length signaturePatterns \<and>
          (\<exists>p \<in> set (patterns (signaturePatterns ! i)). MatchString p m) \<and>
          (\<forall>j < i. \<forall>p \<in> set (patterns (signaturePatterns ! j)). \<not> MatchString p m)
        \<longrightarrow> DetectSignature m = signature (signaturePatterns ! i)) \<and>
   MatchString (lits ''timeout'') ''expect(response).timeout exceeded'' \<and>
   MatchString ([WordBoundary] @ lits ''expect'' @ [WordBoundary])
     ''expect(response).timeout exceeded'' \<and>
   DetectSignature ''expect(response).timeout exceeded'' = SignatureTimeout"
proof (intro conjI allI impI)
  show "map signature signaturePatterns
     = [SignatureTimeout, SignatureSelector, SignatureNetwork, SignatureDOMDetach,
        SignatureAssertion]"
    by (rule signature_order)
  show "DetectSignature [] = SignatureUnknown"
    by (simp add: DetectSignature_def)
  show "DetectSignature m = SignatureUnknown"
    if "\<forall>sp \<in> set signaturePatterns. \<forall>p \<in> set (patterns sp). \<not> MatchString p m" for m
    using detectIn_none [OF that] by (simp add: DetectSignature_def)
  show "DetectSignature m = signature (signaturePatterns ! i)"
    if "m \<noteq> [] \<and> i < length signaturePatterns \<and>
          (\<exists>p \<in> set (patterns (signaturePatterns ! i)). MatchString p m) \<and>
          (\<forall>j < i. \<forall>p \<in> set (patterns (signaturePatterns ! j)). \<not> MatchString p m)" for m i
    using that detectIn_first [of i signaturePatterns m] by (simp add: DetectSignature_def)
  show "MatchString (lits ''timeout'') ''expect(response).timeout exceeded''"
    using timeout_example_matches by blast
  show "MatchString ([WordBoundary] @ lits ''expect'' @ [WordBoundary])
     ''expect(response).timeout exceeded''"
    using timeout_example_matches by blast
  show "DetectSignature ''expect(response).timeout exceeded'' = SignatureTimeout"
    by (rule timeout_example)
qed

lemma selector_example:
  "signaturePatterns ! 1
     = \<lparr> signature = SignatureSelector,
         patterns =
           [ lits ''selector'',
             lits ''element'' @ [SpaceStar] @ lits ''not'' @ [SpaceStar] @ lits ''found'',
             lits ''cy.get'' ] \<rparr> \<and>
   MatchString (lits ''cy.get'') ''cy.get() failed'' \<and>
   list_all (\<lambda>p. \<not> MatchString p ''cy.get() failed'') (patterns (signaturePatterns ! 0))"
  by code_simp

theorem C4_detect_signature_witness:
  "(1 :: nat) < length signaturePatterns \<and>
   MatchString (lits ''cy.get'') ''cy.get() failed'' \<and>
   list_all (\<lambda>p. \<not> MatchString p ''cy.get() failed'') (patterns (signaturePatterns ! 0)) \<and>
   DetectSignature ''cy.get() failed'' = SignatureSelector \<and>
   list_all (\<lambda>sp. list_all (\<lambda>p. \<not> MatchString p ''Something went wrong'') (patterns sp))
     signaturePatterns \<and>
   DetectSignature ''Something went wrong'' = SignatureUnknown"
proof -
  have len: "(1 :: nat) < length signaturePatterns"
    by (simp add: signaturePatterns_def)
  have sel: "signature (signaturePatterns ! 1) = SignatureSelector"
    "lits ''cy.get'' \<in> set (patterns (signaturePatterns ! 1))"
    using selector_example by simp_all
  have m: "MatchString (lits ''cy.get'') ''cy.get() failed''"
    using selector_example by blast
  have earlier: "list_all (\<lambda>p. \<not> MatchString p ''cy.get() failed'')
      (patterns (signaturePatterns ! 0))"
    using selector_example by blast
  then have earlier': "\<forall>j < (1 :: nat). \<forall>p \<in> set (patterns (signaturePatterns ! j)).
      \<not> MatchString p ''cy.get() failed''"
    by (simp add: list_all_iff)
  have none: "list_all (\<lambda>sp. list_all (\<lambda>p. \<not> MatchString p ''Something went wrong'')
      (patterns sp)) signaturePatterns"
    by code_simp
  then have none': "\<forall>sp \<in> set signaturePatterns. \<forall>p \<in> set (patterns sp).
      \<not> MatchString p ''Something went wrong''"
    by (simp add: list_all_iff)
  have "DetectSignature ''cy.get() failed'' = signature (signaturePatterns ! 1)"
    using C4_detect_signature len sel(2) m earlier' by blast
  moreover have "DetectSignature ''Something went wrong'' = SignatureUnknown"
    using C4_detect_signature none' by blast
  ultimately show ?thesis
    using len m earlier none sel(1) by simp
qed

section \<open>Properties of the execution loop\<close>

lemma runLoop_until:
  assumes "i \<le> s"
    and "\<forall>j. i \<le> j \<and> j < s \<longrightarrow>
           int j \<le> Runs cfg \<and> \<not> stopBefore w cfg j
           \<and> mkdirAll w (pathJoin runsDir (formatRunDir j)) = None"
    and "Runs cfg < int s \<or> stopBefore w cfg s"
  shows "runLoop w cfg ad runsDir i (rs, ds)
     = Inr (rs @ map (runRecord w cfg ad runsDir) [i..<s], ds @ map formatRunDir [i..<s])"
  using assms
proof (induction "s - i" arbitrary: i rs ds)
  case 0
  then have "i = s" by simp
  then show ?case
    using "0.prems"(3) by (auto simp: runLoop.simps stopBefore_def)
next
  case (Suc n)
  then have lt: "i < s" by simp
  then have here: "int i \<le> Runs cfg" "\<not> stopBefore w cfg i"
    "mkdirAll w (pathJoin runsDir (formatRunDir i)) = None"
    using Suc.prems(2) by auto
  have step: "runLoop w cfg ad runsDir i (rs, ds)
      = runLoop w cfg ad runsDir (Suc i)
          (rs @ [runRecord w cfg ad runsDir i], ds @ [formatRunDir i])"
    using here by (subst runLoop.simps) (simp add: stopBefore_def Let_def)
  have "runLoop w cfg ad runsDir (Suc i)
          (rs @ [runRecord w cfg ad runsDir i], ds @ [formatRunDir i])
      = Inr ((rs @ [runRecord w cfg ad runsDir i]) @ map (runRecord w cfg ad runsDir) [Suc i..<s],
             (ds @ [formatRunDir i]) @ map formatRunDir [Suc i..<s])"
  proof (rule Suc.hyps(1))
    show "n = s - Suc i" using Suc.hyps(2) by simp
    show "Suc i \<le> s" using lt by simp
    show "\<forall>j. Suc i \<le> j \<and> j < s \<longrightarrow>
           int j \<le> Runs cfg \<and> \<not> stopBefore w cfg j
           \<and> mkdirAll w (pathJoin runsDir (formatRunDir j)) = None"
      using Suc.prems(2) by auto
    show "Runs cfg < int s \<or> stopBefore w cfg s" by (rule Suc.prems(3))
  qed
  then show ?case
    unfolding step using lt by (simp add: upt_conv_Cons)
qed

lemma runLoop_mkdir_fails:
  assumes "i \<le> s"
    and "\<forall>j. i \<le> j \<and> j < s \<longrightarrow>
           int j \<le> Runs cfg \<and> \<not> stopBefore w cfg j
           \<and> mkdirAll w (pathJoin runsDir (formatRunDir j)) = None"
    and "int s \<le> Runs cfg" "\<not> stopBefore w cfg s"
    and "mkdirAll w (pathJoin runsDir (formatRunDir s)) = Some err"
  shows "runLoop w cfg ad runsDir i (rs, ds)
     = Inl (''failed to create run directory '' @ pathJoin runsDir (formatRunDir s)
            @ '': '' @ err)"
  using assms
proof (induction "s - i" arbitrary: i rs ds)
  case 0
  then have "i = s" by simp
  then show ?case
    using "0.prems" by (subst runLoop.simps) (simp add: stopBefore_def Let_def)
next
  case (Suc n)
  then have lt: "i < s" by simp
  then have here: "int i \<le> Runs cfg" "\<not> stopBefore w cfg i"
    "mkdirAll w (pathJoin runsDir (formatRunDir i)) = None"
    using Suc.prems(2) by auto
  have step: "runLoop w cfg ad runsDir i (rs, ds)
      = runLoop w cfg ad runsDir (Suc i)
          (rs @ [runRecord w cfg ad runsDir i], ds @ [formatRunDir i])"
    using here by (subst runLoop.simps) (simp add: stopBefore_def Let_def)
  show ?case
    unfolding step
  proof (rule Suc.hyps(1))
    show "n = s - Suc i" using Suc.hyps(2) by simp
    show "Suc i \<le> s" using lt by simp
    show "\<forall>j. Suc i \<le> j \<and> j < s \<longrightarrow>
           int j \<le> Runs cfg \<and> \<not> stopBefore w cfg j
           \<and> mkdirAll w (pathJoin runsDir (formatRunDir j)) = None"
      using Suc.prems(2) by auto
  qed (use Suc.prems in auto)
qed

lemma Run_of_loop:
  assumes "setupOk w cfg" "Adapter cfg = Some ad"
    and "runLoop w cfg ad (runsDirOf cfg) 1 ([], []) = Inr (rs, ds)"
  shows "\<exists>out. Run w cfg = Inr out \<and>
           result out = \<lparr> RunResults = rs, RunsExecuted = int (length rs),
                          LatestDir = latestDirOf cfg \<rparr> \<and>
           createdDirs out = ds \<and>
           removedDirs out =
             (if KeepRuns cfg > 0 \<and> int (length rs) > KeepRuns cfg
              then snd (cleanupOldRuns w (runsDirOf cfg) (KeepRuns cfg) ds) else [])"
  using assms
  by (auto simp: Run_def setupOk_def runsDirOf_def latestDirOf_def Let_def
      split: prod.splits)

lemma Run_loop_error:
  assumes "setupOk w cfg" "Adapter cfg = Some ad"
    and "runLoop w cfg ad (runsDirOf cfg) 1 ([], []) = Inl err"
  shows "Run w cfg = Inl err"
  using assms
  by (simp add: Run_def setupOk_def runsDirOf_def latestDirOf_def Let_def)

lemma RunIndex_runRecord: "RunIndex (runRecord w cfg ad runsDir i) = int i"
  by (simp add: runRecord_def executeRun_def Let_def split: option.splits sum.splits)

lemma runRecord_fails:
  assumes "runFails w cfg ad (pathJoin runsDir (formatRunDir i))"
  shows "\<exists>err. err \<noteq> [] \<and>
           runRecord w cfg ad runsDir i = \<lparr> RunIndex = int i, Tests = [], Error = err \<rparr>"
  using assms
  by (auto simp: runFails_def runRecord_def executeRun_def Let_def isl_def
      split: option.splits sum.splits)

lemma runRecord_succeeds:
  assumes "\<not> runFails w cfg ad (pathJoin runsDir (formatRunDir i))"
  shows "\<exists>res. Parse ad (pathJoin runsDir (formatRunDir i)) = Inr res \<and>
           runRecord w cfg ad runsDir i = res \<lparr> RunIndex := int i \<rparr>"
  using assms
  by (auto simp: runFails_def runRecord_def executeRun_def Let_def isl_def
      split: option.splits sum.splits)

lemma Aggregate_no_tests:
  assumes "\<forall>run \<in> set runs. Tests run = []"
  shows "Aggregate runs = []"
proof -
  have "occurrences runs = []"
    using assms by (simp add: occurrences_def)
  then have "accumulate runs = []"
    by (simp add: accumulate_occurrences)
  then show ?thesis
    by (simp add: Aggregate_sorted builtTests_def sort_Slice_def)
qed

lemma Run_until:
  assumes ok: "setupOk w cfg" "Adapter cfg = Some ad"
    and s: "1 \<le> s"
    and before: "\<forall>j. 1 \<le> j \<and> j < s \<longrightarrow>
           int j \<le> Runs cfg \<and> \<not> stopBefore w cfg j \<and> mkdirAll w (runDirOf cfg j) = None"
    and stops: "Runs cfg < int s \<or> stopBefore w cfg s"
  shows "\<exists>out. Run w cfg = Inr out \<and>
           RunsExecuted (result out) = int s - 1 \<and>
           RunResults (result out) = map (runRecord w cfg ad (runsDirOf cfg)) [1..<s] \<and>
           map RunIndex (RunResults (result out)) = map int [1..<s] \<and>
           createdDirs out = map formatRunDir [1..<s]"
proof -
  have "runLoop w cfg ad (runsDirOf cfg) 1 ([], [])
      = Inr ([] @ map (runRecord w cfg ad (runsDirOf cfg)) [1..<s],
             [] @ map formatRunDir [1..<s])"
    by (rule runLoop_until) (use s before stops in \<open>simp_all add: runDirOf_def\<close>)
  then have loop: "runLoop w cfg ad (runsDirOf cfg) 1 ([], [])
      = Inr (map (runRecord w cfg ad (runsDirOf cfg)) [1..<s], map formatRunDir [1..<s])"
    by (simp only: append_Nil)
  from Run_of_loop [OF ok loop]
  obtain out where out: "Run w cfg = Inr out"
    "result out = \<lparr> RunResults = map (runRecord w cfg ad (runsDirOf cfg)) [1..<s],
       RunsExecuted = int (length (map (runRecord w cfg ad (runsDirOf cfg)) [1..<s])),
       LatestDir = latestDirOf cfg \<rparr>"
    "createdDirs out = map formatRunDir [1..<s]"
    by blast
  have "RunsExecuted (result out) = int s - 1"
    using s by (simp add: out(2))
  moreover have "map RunIndex (RunResults (result out)) = map int [1..<s]"
    by (simp add: out(2) RunIndex_runRecord comp_def)
  ultimately show ?thesis
    using out by simp
qed

section \<open>Stopping on timeout and cancellation\<close>

text \<open>
  Claim C6. Once the configuration is accepted and the output directories are prepared,
  \<^verbatim>\<open>Run\<close> checks before every run whether the configured timeout has elapsed or the
  context is cancelled. If \<open>s\<close> is the first run before which one of the two holds,
  the runs 1 to \<open>s - 1\<close> are executed and recorded in this order, no directory is created
  for run \<open>s\<close> or a later run, and \<^verbatim>\<open>RunsExecuted\<close> is \<open>s - 1\<close>. If neither holds before any of
  the configured runs, all of them are executed.
\<close>

theorem C6_stop_before_run:
  "setupOk w cfg \<and> Adapter cfg = Some ad \<longrightarrow>
     (\<forall>s. 1 \<le> s \<and> int s \<le> Runs cfg \<and> stopBefore w cfg s \<and>
          (\<forall>j. 1 \<le> j \<and> j < s \<longrightarrow>
                 \<not> stopBefore w cfg j \<and> mkdirAll w (runDirOf cfg j) = None)
        \<longrightarrow> (\<exists>out. Run w cfg = Inr out \<and>
               RunsExecuted (result out) = int s - 1 \<and>
               RunResults (result out) = map (runRecord w cfg ad (runsDirOf cfg)) [1..<s] \<and>
               map RunIndex (RunResults (result out)) = map int [1..<s] \<and>
               createdDirs out = map formatRunDir [1..<s])) \<and>
     ((\<forall>j. 1 \<le> j \<and> int j \<le> Runs cfg \<longrightarrow>
             \<not> stopBefore w cfg j \<and> mkdirAll w (runDirOf cfg j) = None)
        \<longrightarrow> (\<exists>out. Run w cfg = Inr out \<and>
               RunsExecuted (result out) = Runs cfg \<and>
               map RunIndex (RunResults (result out)) = map int [1..<Suc (nat (Runs cfg))] \<and>
               createdDirs out = map formatRunDir [1..<Suc (nat (Runs cfg))]))"
proof (intro impI conjI allI)
  fix s
  assume ok: "setupOk w cfg \<and> Adapter cfg = Some ad"
  assume s: "1 \<le> s \<and> int s \<le> Runs cfg \<and> stopBefore w cfg s \<and>
          (\<forall>j. 1 \<le> j \<and> j < s \<longrightarrow>
                 \<not> stopBefore w cfg j \<and> mkdirAll w (runDirOf cfg j) = None)"
  have "\<forall>j. 1 \<le> j \<and> j < s \<longrightarrow>
           int j \<le> Runs cfg \<and> \<not> stopBefore w cfg j \<and> mkdirAll w (runDirOf cfg j) = None"
    using s by auto
  then show "\<exists>out. Run w cfg = Inr out \<and>
               RunsExecuted (result out) = int s - 1 \<and>
               RunResults (result out) = map (runRecord w cfg ad (runsDirOf cfg)) [1..<s] \<and>
               map RunIndex (RunResults (result out)) = map int [1..<s] \<and>
               createdDirs out = map formatRunDir [1..<s]"
    using ok s by (intro Run_until) simp_all
next
  assume ok: "setupOk w cfg \<and> Adapter cfg = Some ad"
  assume all: "\<forall>j. 1 \<le> j \<and> int j \<le> Runs cfg \<longrightarrow>
             \<not> stopBefore w cfg j \<and> mkdirAll w (runDirOf cfg j) = None"
  have pos: "0 < Runs cfg"
    using ok by (simp add: setupOk_def)
  have "\<exists>out. Run w cfg = Inr out \<and>
           RunsExecuted (result out) = int (Suc (nat (Runs cfg))) - 1 \<and>
           RunResults (result out)
             = map (runRecord w cfg ad (runsDirOf cfg)) [1..<Suc (nat (Runs cfg))] \<and>
           map RunIndex (RunResults (result out)) = map int [1..<Suc (nat (Runs cfg))] \<and>
           createdDirs out = map formatRunDir [1..<Suc (nat (Runs cfg))]"
    using ok all pos by (intro Run_until) auto
  then show "\<exists>out. Run w cfg = Inr out \<and>
               RunsExecuted (result out) = Runs cfg \<and>
               map RunIndex (RunResults (result out)) = map int [1..<Suc (nat (Runs cfg))] \<and>
               createdDirs out = map formatRunDir [1..<Suc (nat (Runs cfg))]"
    using pos by auto
qed

lemma sessionConfig_adapter:
  "Adapter (sessionConfig n t k) = Some (jestAdapter emptyJestDisk)"
  by (simp add: sessionConfig_def)

lemma timeout_session_setup:
  "setupOk timeoutWorld (sessionConfig 10 60000000000 0) \<and>
   stopBefore timeoutWorld (sessionConfig 10 60000000000 0) 5 \<and>
   list_all (\<lambda>j. \<not> stopBefore timeoutWorld (sessionConfig 10 60000000000 0) j
                \<and> mkdirAll timeoutWorld (runDirOf (sessionConfig 10 60000000000 0) j) = None)
     [1, 2, 3, 4]"
  by code_simp

text \<open>
  Ten runs are configured with a timeout of one minute and every run takes 15 seconds:
  the timeout has elapsed before run 5, and four runs are executed.
\<close>

theorem C6_stop_before_run_witness:
  "setupOk timeoutWorld (sessionConfig 10 60000000000 0) \<and>
   stopBefore timeoutWorld (sessionConfig 10 60000000000 0) 5 \<and>
   list_all (\<lambda>j. \<not> stopBefore timeoutWorld (sessionConfig 10 60000000000 0) j
                \<and> mkdirAll timeoutWorld (runDirOf (sessionConfig 10 60000000000 0) j) = None)
     [1, 2, 3, 4] \<and>
   (\<exists>out. Run timeoutWorld (sessionConfig 10 60000000000 0) = Inr out \<and>
      RunsExecuted (result out) = 4 \<and>
      map RunIndex (RunResults (result out)) = [1, 2, 3, 4] \<and>
      createdDirs out = map formatRunDir [1, 2, 3, 4])"
proof -
  let ?cfg = "sessionConfig 10 60000000000 0"
  let ?ad = "jestAdapter emptyJestDisk"
  have ok: "setupOk timeoutWorld ?cfg \<and> Adapter ?cfg = Some ?ad"
    using timeout_session_setup sessionConfig_adapter by blast
  have four: "list_all (\<lambda>j. \<not> stopBefore timeoutWorld ?cfg j
                \<and> mkdirAll timeoutWorld (runDirOf ?cfg j) = None) [1, 2, 3, 4]"
    using timeout_session_setup by blast
  have before: "\<forall>j. 1 \<le> j \<and> j < (5 :: nat) \<longrightarrow>
      \<not> stopBefore timeoutWorld ?cfg j \<and> mkdirAll timeoutWorld (runDirOf ?cfg j) = None"
  proof (intro allI impI)
    fix j :: nat
    assume "1 \<le> j \<and> j < 5"
    then have "j \<in> set [1, 2, 3, 4]" by auto
    with four show "\<not> stopBefore timeoutWorld ?cfg j
        \<and> mkdirAll timeoutWorld (runDirOf ?cfg j) = None"
      unfolding list_all_iff by (rule bspec)
  qed
  have runs: "int 5 \<le> Runs ?cfg"
    by (simp add: sessionConfig_def)
  have stop: "stopBefore timeoutWorld ?cfg 5"
    using timeout_session_setup by blast
  have hyp: "1 \<le> (5 :: nat) \<and> int 5 \<le> Runs ?cfg \<and> stopBefore timeoutWorld ?cfg 5 \<and>
      (\<forall>j. 1 \<le> j \<and> j < 5 \<longrightarrow>
         \<not> stopBefore timeoutWorld ?cfg j \<and> mkdirAll timeoutWorld (runDirOf ?cfg j) = None)"
    using runs stop before by simp
  have upt: "[1..<5] = [1, 2, 3, 4 :: nat]"
    by (simp add: upt_conv_Cons)
  have "\<exists>out. Run timeoutWorld ?cfg = Inr out \<and>
      RunsExecuted (result out) = int 5 - 1 \<and>
      RunResults (result out) = map (runRecord timeoutWorld ?cfg ?ad (runsDirOf ?cfg)) [1..<5] \<and>
      map RunIndex (RunResults (result out)) = map int [1..<5] \<and>
      createdDirs out = map formatRunDir [1..<5]"
    by (rule mp [OF spec [OF conjunct1 [OF mp [OF C6_stop_before_run ok]]] hyp])
  then obtain out where out: "Run timeoutWorld ?cfg = Inr out"
    "RunsExecuted (result out) = int 5 - 1"
    "map RunIndex (RunResults (result out)) = map int [1..<5]"
    "createdDirs out = map formatRunDir [1..<5]"
    by blast
  have "Run timeoutWorld ?cfg = Inr out \<and>
      RunsExecuted (result out) = 4 \<and>
      map RunIndex (RunResults (result out)) = [1, 2, 3, 4] \<and>
      createdDirs out = map formatRunDir [1, 2, 3, 4]"
    using out unfolding upt by simp
  then have "\<exists>out. Run timeoutWorld ?cfg = Inr out \<and>
      RunsExecuted (result out) = 4 \<and>
      map RunIndex (RunResults (result out)) = [1, 2, 3, 4] \<and>
      createdDirs out = map formatRunDir [1, 2, 3, 4]"
    by (rule exI)
  then show ?thesis
    using timeout_session_setup by blast
qed

section \<open>Run directories and their names\<close>

lemma formatRunDir_examples:
  "formatRunDir 999 = ''999''" "formatRunDir 1000 = ''1000''"
  by code_simp+

lemma digitChar_le: "d < 10 \<Longrightarrow> digitChar d \<le> CHR ''9''"
  by (simp add: digitChar_def less_eq_char_def)

lemma decimal_digits: "c \<in> set (decimal n) \<Longrightarrow> c \<le> CHR ''9''"
proof (induction n arbitrary: c rule: decimal.induct)
  case (1 n)
  show ?case
  proof (cases "n < 10")
    case True
    then show ?thesis
      using "1.prems" by (subst (asm) decimal.simps) (simp add: digitChar_le)
  next
    case False
    then have "c \<in> set (decimal (n div 10)) \<or> c = digitChar (n mod 10)"
      using "1.prems" by (subst (asm) decimal.simps) auto
    then show ?thesis
      using "1.IH" [OF False] by (auto simp: digitChar_le)
  qed
qed

lemma length_decimal: "n < 1000 \<Longrightarrow> length (decimal n) \<le> 3"
  by (subst decimal.simps, simp, subst decimal.simps, simp, subst decimal.simps, simp)

lemma length_decimal_pos: "0 < length (decimal n)"
  by (subst decimal.simps) simp

lemma three_digits_le:
  assumes "length s = 3" "\<forall>c \<in> set s. c \<le> CHR ''9''"
  shows "s \<le> ''999''"
proof -
  obtain a b c where s: "s = [a, b, c]"
    using assms(1) by (auto simp: length_Suc_conv numeral_3_eq_3)
  have "a \<le> CHR ''9''" "b \<le> CHR ''9''" "c \<le> CHR ''9''"
    using assms(2) by (simp_all add: s)
  then show ?thesis
    unfolding s by (auto simp: le_less)
qed

lemma formatRunDir_bound:
  assumes "1 \<le> i" "i \<le> 1000"
  shows "formatRunDir i \<le> ''999''"
proof (cases "i = 1000")
  case True
  then show ?thesis
    by (simp add: formatRunDir_examples)
next
  case False
  then have small: "i < 1000" using assms by simp
  have len: "length (formatRunDir i) = 3"
    using length_decimal [OF small] by (simp add: formatRunDir_def)
  have zero: "CHR ''0'' \<le> CHR ''9''"
    by (simp add: less_eq_char_def)
  have "c \<le> CHR ''9''" if "c \<in> set (formatRunDir i)" for c
  proof -
    from that have "c = CHR ''0'' \<or> c \<in> set (decimal i)"
      by (auto simp: formatRunDir_def)
    then show ?thesis
      using zero decimal_digits by blast
  qed
  then have "\<forall>c \<in> set (formatRunDir i). c \<le> CHR ''9''"
    by blast
  with len show ?thesis
    by (rule three_digits_le)
qed


lemma removeEach_ok:
  assumes "\<forall>dir. removeAll w (pathJoin runsDir dir) = None"
  shows "removeEach w runsDir dirs removed = (None, removed @ dirs)"
  using assms by (induction dirs arbitrary: removed) simp_all

lemma sorted_last_max:
  fixes xs :: "'a :: linorder list"
  assumes "sorted xs" "x \<in> set xs"
  shows "x \<le> last xs"
proof -
  have ne: "xs \<noteq> []" using assms(2) by auto
  then have "xs = butlast xs @ [last xs]" by simp
  then have "sorted (butlast xs @ [last xs])" using assms(1) by simp
  then have "\<forall>y \<in> set (butlast xs). y \<le> last xs"
    by (simp add: sorted_append)
  moreover have "x \<in> set (butlast xs) \<or> x = last xs"
    using assms(2) ne by (metis append_butlast_last_id in_set_butlast_appendI insert_iff
        list.set(2) set_append Un_iff empty_iff empty_set)
  ultimately show ?thesis by auto
qed

section \<open>Runs that fail\<close>

lemma first_stop:
  assumes "0 < Runs cfg"
  obtains s where "1 \<le> s" "Runs cfg < int s \<or> stopBefore w cfg s"
    and "\<forall>j. 1 \<le> j \<and> j < s \<longrightarrow> int j \<le> Runs cfg \<and> \<not> stopBefore w cfg j"
proof -
  define P where "P s \<longleftrightarrow> 1 \<le> s \<and> (Runs cfg < int s \<or> stopBefore w cfg s)" for s
  define s where "s = (LEAST s. P s)"
  have "P (Suc (nat (Runs cfg)))"
    using assms by (simp add: P_def)
  then have Ps: "P s"
    unfolding s_def by (rule LeastI)
  have least: "\<not> P j" if "j < s" for j
    using that unfolding s_def by (rule not_less_Least)
  show thesis
  proof (rule that)
    show "1 \<le> s" using Ps by (simp add: P_def)
    show "Runs cfg < int s \<or> stopBefore w cfg s" using Ps by (simp add: P_def)
    show "\<forall>j. 1 \<le> j \<and> j < s \<longrightarrow> int j \<le> Runs cfg \<and> \<not> stopBefore w cfg j"
    proof (intro allI impI)
      fix j
      assume j: "1 \<le> j \<and> j < s"
      then have "\<not> P j" using least by blast
      then show "int j \<le> Runs cfg \<and> \<not> stopBefore w cfg j"
        using j by (simp add: P_def not_less)
    qed
  qed
qed

lemma Run_never_aborts:
  assumes ok: "setupOk w cfg" "Adapter cfg = Some ad"
    and dirs: "\<forall>j. 1 \<le> j \<and> int j \<le> Runs cfg \<longrightarrow> mkdirAll w (runDirOf cfg j) = None"
  shows "\<exists>out s. Run w cfg = Inr out \<and> 1 \<le> s \<and>
           (Runs cfg < int s \<or> stopBefore w cfg s) \<and>
           (\<forall>j. 1 \<le> j \<and> j < s \<longrightarrow> \<not> stopBefore w cfg j \<and> int j \<le> Runs cfg) \<and>
           RunResults (result out) = map (runRecord w cfg ad (runsDirOf cfg)) [1..<s]"
proof -
  have "0 < Runs cfg" using ok(1) by (simp add: setupOk_def)
  then obtain s where s: "1 \<le> s" "Runs cfg < int s \<or> stopBefore w cfg s"
    "\<forall>j. 1 \<le> j \<and> j < s \<longrightarrow> int j \<le> Runs cfg \<and> \<not> stopBefore w cfg j"
    by (rule first_stop)
  have before: "\<forall>j. 1 \<le> j \<and> j < s \<longrightarrow>
      int j \<le> Runs cfg \<and> \<not> stopBefore w cfg j \<and> mkdirAll w (runDirOf cfg j) = None"
    using s(3) dirs by blast
  from Run_until [OF ok s(1) before s(2)]
  obtain out where "Run w cfg = Inr out"
    "RunResults (result out) = map (runRecord w cfg ad (runsDirOf cfg)) [1..<s]"
    by blast
  then show ?thesis
    using s by blast
qed

lemma Run_all_fail:
  assumes ok: "setupOk w cfg" "Adapter cfg = Some ad"
    and all: "\<forall>j. 1 \<le> j \<and> int j \<le> Runs cfg \<longrightarrow>
        mkdirAll w (runDirOf cfg j) = None \<and> \<not> stopBefore w cfg j
        \<and> runFails w cfg ad (runDirOf cfg j)"
  shows "\<exists>out. Run w cfg = Inr out \<and> RunsExecuted (result out) = Runs cfg \<and>
           (\<forall>r \<in> set (RunResults (result out)). Tests r = [] \<and> Error r \<noteq> []) \<and>
           Aggregate (RunResults (result out)) = []"
proof -
  have pos: "0 < Runs cfg" using ok(1) by (simp add: setupOk_def)
  have before: "\<forall>j. 1 \<le> j \<and> j < Suc (nat (Runs cfg)) \<longrightarrow>
      int j \<le> Runs cfg \<and> \<not> stopBefore w cfg j \<and> mkdirAll w (runDirOf cfg j) = None"
    using all by auto
  have "Runs cfg < int (Suc (nat (Runs cfg))) \<or> stopBefore w cfg (Suc (nat (Runs cfg)))"
    by simp
  from Run_until [OF ok _ before this]
  obtain out where out: "Run w cfg = Inr out"
    "RunsExecuted (result out) = int (Suc (nat (Runs cfg))) - 1"
    "RunResults (result out)
       = map (runRecord w cfg ad (runsDirOf cfg)) [1..<Suc (nat (Runs cfg))]"
    by auto
  have rec: "Tests r = [] \<and> Error r \<noteq> []" if "r \<in> set (RunResults (result out))" for r
  proof -
    from that obtain j where j: "1 \<le> j" "j < Suc (nat (Runs cfg))"
      and r: "r = runRecord w cfg ad (runsDirOf cfg) j"
      unfolding out(3) by auto
    have "runFails w cfg ad (pathJoin (runsDirOf cfg) (formatRunDir j))"
      using all j by (auto simp: runDirOf_def)
    from runRecord_fails [OF this] show ?thesis
      unfolding r by auto
  qed
  then have "Aggregate (RunResults (result out)) = []"
    by (intro Aggregate_no_tests) blast
  then show ?thesis
    using out(1,2) rec pos by auto
qed

lemma Run_mkdir_fails:
  assumes ok: "setupOk w cfg" "Adapter cfg = Some ad"
    and s: "1 \<le> s" "int s \<le> Runs cfg" "\<not> stopBefore w cfg s"
      "mkdirAll w (runDirOf cfg s) = Some err"
    and before: "\<forall>j. 1 \<le> j \<and> j < s \<longrightarrow>
        \<not> stopBefore w cfg j \<and> mkdirAll w (runDirOf cfg j) = None"
  shows "Run w cfg = Inl (''failed to create run directory '' @ runDirOf cfg s @ '': '' @ err)"
proof -
  have "runLoop w cfg ad (runsDirOf cfg) 1 ([], [])
      = Inl (''failed to create run directory '' @ pathJoin (runsDirOf cfg) (formatRunDir s)
             @ '': '' @ err)"
    by (rule runLoop_mkdir_fails) (use s before in \<open>auto simp: runDirOf_def\<close>)
  from Run_loop_error [OF ok this] show ?thesis
    by (simp add: runDirOf_def)
qed

text \<open>
  Claim C7, as amended. A run whose execution cannot be set up, whose expected artifact
  is missing after the execution, or whose result cannot be parsed is recorded with its
  index, no tests and a non-empty error text. Provided that the directory of every run
  can be created, \<^verbatim>\<open>Run\<close> returns a result with one record for every run up to the first
  one before which the timeout has elapsed or the context is cancelled, whether these
  runs failed or not; when every configured run fails in this way, the result has a record
  for each of them and \<^verbatim>\<open>Aggregate\<close> returns no test for it. When the directory of a
  run cannot be created, \<^verbatim>\<open>Run\<close> returns an error instead of a result.
\<close>

theorem C7_failed_runs_recorded:
  "(\<forall>i. runFails w cfg ad (runDirOf cfg i) \<longrightarrow>
      (\<exists>err. err \<noteq> [] \<and>
         runRecord w cfg ad (runsDirOf cfg) i
           = \<lparr> RunIndex = int i, Tests = [], Error = err \<rparr>)) \<and>
   (setupOk w cfg \<and> Adapter cfg = Some ad \<longrightarrow>
      ((\<forall>j. 1 \<le> j \<and> int j \<le> Runs cfg \<longrightarrow> mkdirAll w (runDirOf cfg j) = None) \<longrightarrow>
         (\<exists>out s. Run w cfg = Inr out \<and> 1 \<le> s \<and>
            (Runs cfg < int s \<or> stopBefore w cfg s) \<and>
            (\<forall>j. 1 \<le> j \<and> j < s \<longrightarrow> \<not> stopBefore w cfg j \<and> int j \<le> Runs cfg) \<and>
            RunResults (result out) = map (runRecord w cfg ad (runsDirOf cfg)) [1..<s])) \<and>
      ((\<forall>j. 1 \<le> j \<and> int j \<le> Runs cfg \<longrightarrow>
            mkdirAll w (runDirOf cfg j) = None \<and> \<not> stopBefore w cfg j
            \<and> runFails w cfg ad (runDirOf cfg j)) \<longrightarrow>
         (\<exists>out. Run w cfg = Inr out \<and> RunsExecuted (result out) = Runs cfg \<and>
            (\<forall>r \<in> set (RunResults (result out)). Tests r = [] \<and> Error r \<noteq> []) \<and>
            Aggregate (RunResults (result out)) = [])) \<and>
      (\<forall>s err. 1 \<le> s \<and> int s \<le> Runs cfg \<and> \<not> stopBefore w cfg s \<and>
            mkdirAll w (runDirOf cfg s) = Some err \<and>
            (\<forall>j. 1 \<le> j \<and> j < s \<longrightarrow>
               \<not> stopBefore w cfg j \<and> mkdirAll w (runDirOf cfg j) = None) \<longrightarrow>
         Run w cfg
           = Inl (''failed to create run directory '' @ runDirOf cfg s @ '': '' @ err)))"
proof (intro conjI impI allI)
  show "\<exists>err. err \<noteq> [] \<and>
         runRecord w cfg ad (runsDirOf cfg) i = \<lparr> RunIndex = int i, Tests = [], Error = err \<rparr>"
    if "runFails w cfg ad (runDirOf cfg i)" for i
    using that by (intro runRecord_fails) (simp add: runDirOf_def)
next
  assume a: "setupOk w cfg \<and> Adapter cfg = Some ad"
    and b: "\<forall>j. 1 \<le> j \<and> int j \<le> Runs cfg \<longrightarrow> mkdirAll w (runDirOf cfg j) = None"
  show "\<exists>out s. Run w cfg = Inr out \<and> 1 \<le> s \<and>
            (Runs cfg < int s \<or> stopBefore w cfg s) \<and>
            (\<forall>j. 1 \<le> j \<and> j < s \<longrightarrow> \<not> stopBefore w cfg j \<and> int j \<le> Runs cfg) \<and>
            RunResults (result out) = map (runRecord w cfg ad (runsDirOf cfg)) [1..<s]"
    by (rule Run_never_aborts [OF conjunct1 [OF a] conjunct2 [OF a] b])
next
  assume a: "setupOk w cfg \<and> Adapter cfg = Some ad"
    and b: "\<forall>j. 1 \<le> j \<and> int j \<le> Runs cfg \<longrightarrow>
            mkdirAll w (runDirOf cfg j) = None \<and> \<not> stopBefore w cfg j
            \<and> runFails w cfg ad (runDirOf cfg j)"
  show "\<exists>out. Run w cfg = Inr out \<and> RunsExecuted (result out) = Runs cfg \<and>
            (\<forall>r \<in> set (RunResults (result out)). Tests r = [] \<and> Error r \<noteq> []) \<and>
            Aggregate (RunResults (result out)) = []"
    by (rule Run_all_fail [OF conjunct1 [OF a] conjunct2 [OF a] b])
next
  fix s err
  assume a: "setupOk w cfg \<and> Adapter cfg = Some ad"
    and b: "1 \<le> s \<and> int s \<le> Runs cfg \<and> \<not> stopBefore w cfg s \<and>
            mkdirAll w (runDirOf cfg s) = Some err \<and>
            (\<forall>j. 1 \<le> j \<and> j < s \<longrightarrow>
               \<not> stopBefore w cfg j \<and> mkdirAll w (runDirOf cfg j) = None)"
  show "Run w cfg
           = Inl (''failed to create run directory '' @ runDirOf cfg s @ '': '' @ err)"
    using a b by (intro Run_mkdir_fails) blast+
qed

text \<open>
  Three runs are configured and the directory of the second run cannot be created: the
  session ends with an error, and the record of the first run is lost with it.
\<close>

theorem C7_failed_runs_recorded_counterexample:
  "Run mkdirFailWorld (sessionConfig 3 0 0)
     = Inl ''failed to create run directory .flakehunt/latest/runs/002: permission denied''"
  by code_simp

lemma noArtifact_session:
  "setupOk noArtifactWorld (sessionConfig 3 0 0)"
  "mkdirAll noArtifactWorld p = None"
  "\<not> stopBefore noArtifactWorld (sessionConfig 3 0 0) j"
  "runFails noArtifactWorld (sessionConfig 3 0 0) ad d"
  by (simp_all add: setupOk_def noArtifactWorld_def quietWorld_def sessionConfig_def
      stopBefore_def timedOut_def runFails_def latestDirOf_def runsDirOf_def pathJoin_def)

theorem C7_failed_runs_recorded_witness:
  "setupOk noArtifactWorld (sessionConfig 3 0 0) \<and>
   runFails noArtifactWorld (sessionConfig 3 0 0) (jestAdapter emptyJestDisk)
     (runDirOf (sessionConfig 3 0 0) 1) \<and>
   (\<exists>out. Run noArtifactWorld (sessionConfig 3 0 0) = Inr out \<and>
      RunsExecuted (result out) = 3 \<and>
      Aggregate (RunResults (result out)) = [])"
proof -
  let ?cfg = "sessionConfig 3 0 0"
  let ?ad = "jestAdapter emptyJestDisk"
  have ok: "setupOk noArtifactWorld ?cfg \<and> Adapter ?cfg = Some ?ad"
    using noArtifact_session(1) sessionConfig_adapter by blast
  have all: "\<forall>j. 1 \<le> j \<and> int j \<le> Runs ?cfg \<longrightarrow>
      mkdirAll noArtifactWorld (runDirOf ?cfg j) = None \<and> \<not> stopBefore noArtifactWorld ?cfg j
      \<and> runFails noArtifactWorld ?cfg ?ad (runDirOf ?cfg j)"
    using noArtifact_session by blast
  have "\<exists>out. Run noArtifactWorld ?cfg = Inr out \<and> RunsExecuted (result out) = Runs ?cfg \<and>
      (\<forall>r \<in> set (RunResults (result out)). Tests r = [] \<and> Error r \<noteq> []) \<and>
      Aggregate (RunResults (result out)) = []"
    by (rule mp [OF conjunct1 [OF conjunct2 [OF mp [OF conjunct2
          [OF C7_failed_runs_recorded] ok]]] all])
  then obtain out where "Run noArtifactWorld ?cfg = Inr out"
    "RunsExecuted (result out) = Runs ?cfg" "Aggregate (RunResults (result out)) = []"
    by blast
  then have "Run noArtifactWorld ?cfg = Inr out \<and> RunsExecuted (result out) = 3 \<and>
      Aggregate (RunResults (result out)) = []"
    by (simp add: sessionConfig_def)
  then have "\<exists>out. Run noArtifactWorld ?cfg = Inr out \<and> RunsExecuted (result out) = 3 \<and>
      Aggregate (RunResults (result out)) = []"
    by (rule exI)
  then show ?thesis
    using noArtifact_session(1,4) by blast
qed

section \<open>Retention of run directories\<close>

lemma Run_until_removed:
  assumes ok: "setupOk w cfg" "Adapter cfg = Some ad"
    and s: "1 \<le> s"
    and before: "\<forall>j. 1 \<le> j \<and> j < s \<longrightarrow>
           int j \<le> Runs cfg \<and> \<not> stopBefore w cfg j \<and> mkdirAll w (runDirOf cfg j) = None"
    and stops: "Runs cfg < int s \<or> stopBefore w cfg s"
  shows "\<exists>out. Run w cfg = Inr out \<and>
           RunsExecuted (result out) = int s - 1 \<and>
           createdDirs out = map formatRunDir [1..<s] \<and>
           removedDirs out =
             (if KeepRuns cfg > 0 \<and> int s - 1 > KeepRuns cfg
              then snd (cleanupOldRuns w (runsDirOf cfg) (KeepRuns cfg)
                          (map formatRunDir [1..<s]))
              else [])"
proof -
  have "runLoop w cfg ad (runsDirOf cfg) 1 ([], [])
      = Inr ([] @ map (runRecord w cfg ad (runsDirOf cfg)) [1..<s],
             [] @ map formatRunDir [1..<s])"
    by (rule runLoop_until) (use s before stops in \<open>simp_all add: runDirOf_def\<close>)
  then have loop: "runLoop w cfg ad (runsDirOf cfg) 1 ([], [])
      = Inr (map (runRecord w cfg ad (runsDirOf cfg)) [1..<s], map formatRunDir [1..<s])"
    by (simp only: append_Nil)
  from Run_of_loop [OF ok loop]
  obtain out where out: "Run w cfg = Inr out"
    "result out = \<lparr> RunResults = map (runRecord w cfg ad (runsDirOf cfg)) [1..<s],
       RunsExecuted = int (length (map (runRecord w cfg ad (runsDirOf cfg)) [1..<s])),
       LatestDir = latestDirOf cfg \<rparr>"
    "createdDirs out = map formatRunDir [1..<s]"
    "removedDirs out =
       (if KeepRuns cfg > 0
           \<and> int (length (map (runRecord w cfg ad (runsDirOf cfg)) [1..<s])) > KeepRuns cfg
        then snd (cleanupOldRuns w (runsDirOf cfg) (KeepRuns cfg) (map formatRunDir [1..<s]))
        else [])"
    by blast
  have len: "int (length (map (runRecord w cfg ad (runsDirOf cfg)) [1..<s])) = int s - 1"
    using s by simp
  have "RunsExecuted (result out) = int s - 1"
    using s by (simp add: out(2))
  then show ?thesis
    using out(1,3) out(4) [unfolded len] by blast
qed

lemma cleanup_quiet:
  assumes "readDirError w runsDir = None" "\<forall>dir. removeAll w (pathJoin runsDir dir) = None"
    and "0 \<le> k" "k < int (length entries)"
  shows "cleanupOldRuns w runsDir k entries
     = (None, take (length entries - nat k) (sort_Slice (<) entries))"
proof -
  have "nat (int (length entries) - k) = length entries - nat k"
    using assms(3) by simp
  then show ?thesis
    using assms by (simp add: cleanupOldRuns_def Let_def length_sort_Slice removeEach_ok)
qed

lemma sorted_strings: "sorted (sort_Slice (<) (xs :: string list))"
  using sorted_sort_Slice [of "(<)" "\<lambda>x. x" xs] by simp

lemma quiet_1000_setup:
  "setupOk quietWorld (sessionConfig 1000 0 1)"
  "\<not> stopBefore quietWorld (sessionConfig 1000 0 1) j"
  "mkdirAll quietWorld p = None"
  "readDirError quietWorld p = None"
  "removeAll quietWorld p = None"
  "Runs (sessionConfig 1000 0 1) = 1000"
  "KeepRuns (sessionConfig 1000 0 1) = 1"
  by (simp_all add: setupOk_def quietWorld_def sessionConfig_def stopBefore_def timedOut_def
      latestDirOf_def runsDirOf_def pathJoin_def)

text \<open>
  Claim C9 at 1000 runs with one run directory to keep. The run directories are named
  001 to 999 and 1000, and \<^verbatim>\<open>cleanupOldRuns\<close> sorts the names as strings, where 1000 comes
  before 101: the directory of the newest run, 1000, is among the 999 directories removed,
  and the directory that remains is 999.
\<close>

theorem C9_cleanup_thousand_runs:
  "\<exists>out. Run quietWorld (sessionConfig 1000 0 1) = Inr out \<and>
     RunsExecuted (result out) = 1000 \<and>
     createdDirs out = map formatRunDir [1..<1001] \<and>
     formatRunDir 1000 = ''1000'' \<and>
     ''1000'' \<in> set (removedDirs out) \<and>
     length (removedDirs out) = 999 \<and>
     sort_Slice (<) (createdDirs out) = removedDirs out @ [''999'']"
proof -
  let ?cfg = "sessionConfig 1000 0 1"
  let ?dirs = "map formatRunDir [1..<1001]"
  let ?sorted = "sort_Slice (<) ?dirs"
  have before: "\<forall>j. 1 \<le> j \<and> j < (1001 :: nat) \<longrightarrow>
      int j \<le> Runs ?cfg \<and> \<not> stopBefore quietWorld ?cfg j
      \<and> mkdirAll quietWorld (runDirOf ?cfg j) = None"
    by (simp add: quiet_1000_setup)
  have stops: "Runs ?cfg < int 1001 \<or> stopBefore quietWorld ?cfg 1001"
    by (simp add: quiet_1000_setup)
  from Run_until_removed [OF quiet_1000_setup(1) sessionConfig_adapter _ before stops]
  obtain out where out: "Run quietWorld ?cfg = Inr out"
    "RunsExecuted (result out) = int 1001 - 1"
    "createdDirs out = ?dirs"
    "removedDirs out =
       (if KeepRuns ?cfg > 0 \<and> int 1001 - 1 > KeepRuns ?cfg
        then snd (cleanupOldRuns quietWorld (runsDirOf ?cfg) (KeepRuns ?cfg) ?dirs)
        else [])"
    by auto
  have len: "length ?dirs = 1000" by simp
  have "cleanupOldRuns quietWorld (runsDirOf ?cfg) 1 ?dirs
      = (None, take (length ?dirs - nat 1) ?sorted)"
    by (rule cleanup_quiet) (simp_all add: quiet_1000_setup)
  then have removed: "removedDirs out = take 999 ?sorted"
    unfolding out(4) by (simp add: quiet_1000_setup)
  have slen: "length ?sorted = 1000"
    by (simp add: length_sort_Slice)
  have ne: "?sorted \<noteq> []"
    using slen by auto
  have butlast: "take 999 ?sorted = butlast ?sorted"
    unfolding butlast_conv_take slen by simp
  have mem: "''999'' \<in> set ?sorted" "''1000'' \<in> set ?sorted"
  proof -
    have "formatRunDir 999 \<in> set ?dirs" "formatRunDir 1000 \<in> set ?dirs"
      by simp_all
    then show "''999'' \<in> set ?sorted" "''1000'' \<in> set ?sorted"
      by (simp_all only: set_sort_Slice formatRunDir_examples)
  qed
  have upper: "x \<le> ''999''" if "x \<in> set ?sorted" for x
  proof -
    from that obtain i where "1 \<le> i" "i \<le> 1000" "x = formatRunDir i"
      by (auto simp: set_sort_Slice)
    then show ?thesis
      by (simp add: formatRunDir_bound)
  qed
  have "last ?sorted \<in> set ?sorted"
    using ne by simp
  then have "last ?sorted \<le> ''999''"
    by (rule upper)
  moreover have "''999'' \<le> last ?sorted"
    using sorted_strings mem(1) by (rule sorted_last_max)
  ultimately have last: "last ?sorted = ''999''"
    by simp
  have split: "?sorted = butlast ?sorted @ [''999'']"
    using ne last by (metis append_butlast_last_id)
  have "''1000'' \<in> set (butlast ?sorted)"
  proof -
    have "''1000'' \<in> set (butlast ?sorted @ [''999''])"
      using mem(2) split by simp
    then show ?thesis by simp
  qed
  then have "''1000'' \<in> set (removedDirs out)"
    unfolding removed butlast .
  moreover have "length (removedDirs out) = 999"
    unfolding removed length_take slen by simp
  moreover have "sort_Slice (<) (createdDirs out) = removedDirs out @ [''999'']"
    unfolding out(3) removed butlast by (rule split)
  ultimately show ?thesis
    using out(1,2,3) formatRunDir_examples(2) by auto
qed

section \<open>Repeated identities in the adapters\<close>

lemma TestID_caseResult: "TestID (caseResult tid tc) = tid"
  by (simp add: caseResult_def)

lemma casePairs_TestID: "(k, v) \<in> set (casePairs testCases) \<Longrightarrow> TestID v = k"
  by (auto simp: casePairs_def TestID_caseResult)

lemma observed_TestID: "(k, v) \<in> set (observed disk xmlFiles) \<Longrightarrow> TestID v = k"
  by (auto simp: observed_def casePairs_TestID split: sum.splits)

lemma keys_store_set: "fst ` set (store k v m) = insert k (fst ` set m)"
proof -
  have "set (map fst (store k v m)) = insert k (set (map fst m))"
    unfolding keys_store by auto
  then show ?thesis by simp
qed

lemma mergeCases_ok:
  "mergeCases xmlFile testCases m = Inr m' \<Longrightarrow>
     map_of m' = map_of m ++ map_of (rev (casePairs testCases)) \<and>
     (distinct (map fst m) \<longrightarrow> distinct (map fst m')) \<and>
     fst ` set m' = fst ` set m \<union> fst ` set (casePairs testCases)"
proof (induction testCases arbitrary: m)
  case Nil
  then show ?case by (simp add: casePairs_def)
next
  case (Cons tc testCases)
  let ?k = "buildTestID (tc_Classname tc) (tc_Name tc)"
  let ?m = "store ?k (caseResult ?k tc) m"
  have rest: "mergeCases xmlFile testCases ?m = Inr m'"
    using Cons.prems by (auto simp: Let_def split: if_splits)
  have pairs: "casePairs (tc # testCases) = (?k, caseResult ?k tc) # casePairs testCases"
    by (simp add: casePairs_def)
  have IH: "map_of m' = map_of ?m ++ map_of (rev (casePairs testCases))"
    "distinct (map fst ?m) \<longrightarrow> distinct (map fst m')"
    "fst ` set m' = fst ` set ?m \<union> fst ` set (casePairs testCases)"
    using Cons.IH [OF rest] by blast+
  have "map_of m' = map_of m ++ map_of (rev (casePairs (tc # testCases)))"
    unfolding IH(1) pairs by (simp add: map_of_store)
  moreover have "distinct (map fst m) \<longrightarrow> distinct (map fst m')"
    using IH(2) by (simp add: distinct_store)
  moreover have "fst ` set m' = fst ` set m \<union> fst ` set (casePairs (tc # testCases))"
    unfolding IH(3) pairs keys_store_set by auto
  ultimately show ?case by blast
qed

lemma mergeFiles_ok:
  "mergeFiles disk xmlFiles m = Inr m' \<Longrightarrow>
     map_of m' = map_of m ++ map_of (rev (observed disk xmlFiles)) \<and>
     (distinct (map fst m) \<longrightarrow> distinct (map fst m')) \<and>
     fst ` set m' = fst ` set m \<union> fst ` set (observed disk xmlFiles)"
proof (induction xmlFiles arbitrary: m)
  case Nil
  then show ?case by (simp add: observed_def)
next
  case (Cons xmlFile xmlFiles)
  from Cons.prems obtain testCases m1 where p: "parseXMLFile disk xmlFile = Inr testCases"
    and c: "mergeCases xmlFile testCases m = Inr m1"
    and r: "mergeFiles disk xmlFiles m1 = Inr m'"
    by (auto split: sum.splits)
  have obs: "observed disk (xmlFile # xmlFiles) = casePairs testCases @ observed disk xmlFiles"
    by (simp add: observed_def p)
  have IH: "map_of m' = map_of m1 ++ map_of (rev (observed disk xmlFiles))"
    "distinct (map fst m1) \<longrightarrow> distinct (map fst m')"
    "fst ` set m' = fst ` set m1 \<union> fst ` set (observed disk xmlFiles)"
    using Cons.IH [OF r] by blast+
  have C: "map_of m1 = map_of m ++ map_of (rev (casePairs testCases))"
    "distinct (map fst m) \<longrightarrow> distinct (map fst m1)"
    "fst ` set m1 = fst ` set m \<union> fst ` set (casePairs testCases)"
    using mergeCases_ok [OF c] by blast+
  have "map_of m' = map_of m ++ map_of (rev (observed disk (xmlFile # xmlFiles)))"
    unfolding IH(1) C(1) obs by simp
  moreover have "distinct (map fst m) \<longrightarrow> distinct (map fst m')"
    using IH(2) C(2) by blast
  moreover have "fst ` set m' = fst ` set m \<union> fst ` set (observed disk (xmlFile # xmlFiles))"
    unfolding IH(3) C(3) obs by auto
  ultimately show ?case by blast
qed

lemma sort_strings_permutation:
  assumes "mset (found :: string list) = mset found'"
  shows "sort_Slice (<) found = sort_Slice (<) found'"
proof -
  have "sort found = sort_Slice (<) found"
    by (rule properties_for_sort) (simp_all add: mset_sort_Slice sorted_strings)
  moreover have "sort found = sort_Slice (<) found'"
    by (rule properties_for_sort) (simp_all add: mset_sort_Slice sorted_strings assms)
  ultimately show ?thesis by simp
qed

lemma cypress_last_occurrence_wins:
  assumes "cypressParse glob disk runDir = Inr res"
  shows "\<exists>found. glob runDir = Inr found \<and>
           sorted_wrt (<) (map TestID (Tests res)) \<and>
           set (map TestID (Tests res)) = fst ` set (observed disk (sort_Slice (<) found)) \<and>
           (\<forall>t \<in> set (Tests res).
              map_of (rev (observed disk (sort_Slice (<) found))) (TestID t) = Some t)"
proof -
  from assms obtain found m where g: "glob runDir = Inr found"
    and m: "mergeFiles disk (sort_Slice (<) found) [] = Inr m"
    and res: "res = \<lparr> RunIndex = 0,
        Tests = map (\<lambda>tid. the (map_of m tid)) (sort_Slice (<) (map fst m)),
        Error = [] \<rparr>"
    by (auto simp: cypressParse_def Let_def split: sum.splits if_splits)
  let ?obs = "observed disk (sort_Slice (<) found)"
  have M: "map_of m = map_of (rev ?obs)" "distinct (map fst m)" "fst ` set m = fst ` set ?obs"
    using mergeFiles_ok [OF m] by simp_all
  have entry: "map_of (rev ?obs) tid = Some (the (map_of m tid)) \<and> TestID (the (map_of m tid)) = tid"
    if "tid \<in> set (map fst m)" for tid
  proof -
    from that obtain v where v: "map_of m tid = Some v"
      by (metis list.set_map map_of_eq_None_iff not_Some_eq)
    then have "(tid, v) \<in> set ?obs"
      unfolding M(1) by (auto dest: map_of_SomeD)
    then have "TestID v = tid"
      by (rule observed_TestID)
    then show ?thesis
      using v by (simp add: M(1))
  qed
  have "map (\<lambda>tid. TestID (the (map_of m tid))) (sort_Slice (<) (map fst m))
      = sort_Slice (<) (map fst m)"
    using entry by (intro map_idI) (simp only: set_sort_Slice)
  then have ids: "map TestID (Tests res) = sort_Slice (<) (map fst m)"
    unfolding res by (simp add: comp_def)
  have "sorted (sort_Slice (<) (map fst m))"
    by (rule sorted_strings)
  moreover have "distinct (sort_Slice (<) (map fst m))"
    using distinct_map_sort_Slice [of "\<lambda>x. x" "(<)" "map fst m"] M(2) by simp
  ultimately have "sorted_wrt (<) (map TestID (Tests res))"
    unfolding ids by (simp add: strict_sorted_iff)
  moreover have "set (map TestID (Tests res)) = fst ` set ?obs"
    unfolding ids by (simp add: set_sort_Slice M(3))
  moreover have "\<forall>t \<in> set (Tests res). map_of (rev ?obs) (TestID t) = Some t"
    unfolding res using entry by (auto simp: set_sort_Slice)
  ultimately show ?thesis
    using g by blast
qed

lemma cypress_enumeration_order:
  assumes "mset found = mset found'"
  shows "cypressParse (\<lambda>d. Inr found) disk runDir = cypressParse (\<lambda>d. Inr found') disk runDir"
proof -
  have "length found = length found'"
    using assms by (metis size_mset)
  then show ?thesis
    by (simp add: cypressParse_def sort_strings_permutation [OF assms])
qed

lemma extractAssertions_length:
  "extractAssertions artifactPath i name j assertions tests = Inr tests' \<Longrightarrow>
     length tests' = length tests + length assertions"
proof (induction assertions arbitrary: j tests)
  case Nil
  then show ?case by simp
next
  case (Cons assertion assertions)
  from Cons.prems obtain outcome where
    "extractAssertions artifactPath i name (Suc j) assertions
       (tests @
         [\<lparr> TestID = name @ ''::'' @ ar_FullName assertion,
            Outcome = outcome,
            Duration = ar_Duration assertion * 1000000,
            FailureMessage =
              (if length (ar_FailureMessages assertion) > 0
               then Join (ar_FailureMessages assertion) [CHR 0x0A]
               else []) \<rparr>]) = Inr tests'"
    by (auto split: if_splits sum.splits)
  from Cons.IH [OF this] show ?case by simp
qed

lemma extractFiles_length:
  "extractFiles artifactPath i testResults tests = Inr tests' \<Longrightarrow>
     length tests' = length tests + (\<Sum>f\<leftarrow>testResults. length (jt_AssertionResults f))"
proof (induction testResults arbitrary: i tests)
  case Nil
  then show ?case by simp
next
  case (Cons testResult testResults)
  from Cons.prems obtain tests1 where
    a: "extractAssertions artifactPath i (jt_Name testResult) 0
          (jt_AssertionResults testResult) tests = Inr tests1"
    and r: "extractFiles artifactPath (Suc i) testResults tests1 = Inr tests'"
    by (auto split: if_splits sum.splits)
  show ?case
    using Cons.IH [OF r] extractAssertions_length [OF a] by simp
qed

lemma jest_keeps_every_occurrence:
  assumes "jestParse disk runDir = Inr res"
  shows "\<exists>decoded. disk (pathJoin runDir artifactFilename) = JestDecoded decoded \<and>
           length (Tests res) = (\<Sum>f\<leftarrow>jo_TestResults decoded. length (jt_AssertionResults f)) \<and>
           sorted (map TestID (Tests res))"
proof -
  from assms obtain decoded tests where
    d: "disk (pathJoin runDir artifactFilename) = JestDecoded decoded"
    and e: "extractTests decoded (pathJoin runDir artifactFilename) = Inr tests"
    and res: "res = \<lparr> RunIndex = 0, Tests = sort_Slice lessTestID tests, Error = [] \<rparr>"
    by (auto simp: jestParse_def Let_def split: JestFile.splits sum.splits)
  have "length tests = (\<Sum>f\<leftarrow>jo_TestResults decoded. length (jt_AssertionResults f))"
    using extractFiles_length [OF e [unfolded extractTests_def]] by simp
  moreover have "sorted (map TestID (sort_Slice lessTestID tests))"
    by (rule sorted_sort_Slice) (simp add: lessTestID_def)
  ultimately show ?thesis
    using d by (simp add: res length_sort_Slice)
qed

lemma jest_dup_value:
  "jestParse (\<lambda>p. JestDecoded dupJestOutput) ''run''
     = Inr \<lparr> RunIndex = 0,
             Tests = [\<lparr> TestID = ''a.test.js::t'', Outcome = OutcomeFail, Duration = 5000000,
                        FailureMessage = ''boom'' \<rparr>,
                      \<lparr> TestID = ''a.test.js::t'', Outcome = OutcomePass, Duration = 5000000,
                        FailureMessage = [] \<rparr>],
             Error = [] \<rparr>"
  by code_simp

lemma cypress_retry_value:
  "cypressParse (\<lambda>d. Inr [''run/002.xml'', ''run/001.xml'']) retryDisk ''run''
     = Inr \<lparr> RunIndex = 0,
             Tests = [\<lparr> TestID = ''a.cy.js::t'', Outcome = OutcomePass, Duration = 1500000000,
                        FailureMessage = [] \<rparr>],
             Error = [] \<rparr>"
  by code_simp

text \<open>
  Claim C8 at a run in which an identity occurs twice, first failing and then passing.
  The Cypress adapter, given the two occurrences in two fragments of the run, returns one
  result for the identity, the pass. The Jest adapter, given the two occurrences in its
  report, returns two results for the identity, the failure and the pass.
\<close>

theorem C8_repeated_identity:
  "cypressParse (\<lambda>d. Inr [''run/002.xml'', ''run/001.xml'']) retryDisk ''run''
     = Inr \<lparr> RunIndex = 0,
             Tests = [\<lparr> TestID = ''a.cy.js::t'', Outcome = OutcomePass, Duration = 1500000000,
                        FailureMessage = [] \<rparr>],
             Error = [] \<rparr> \<and>
   jestParse (\<lambda>p. JestDecoded dupJestOutput) ''run''
     = Inr \<lparr> RunIndex = 0,
             Tests = [\<lparr> TestID = ''a.test.js::t'', Outcome = OutcomeFail, Duration = 5000000,
                        FailureMessage = ''boom'' \<rparr>,
                      \<lparr> TestID = ''a.test.js::t'', Outcome = OutcomePass, Duration = 5000000,
                        FailureMessage = [] \<rparr>],
             Error = [] \<rparr>"
  using cypress_retry_value jest_dup_value by (rule conjI)

end
